theory Spec2Isabelle
  imports Main "HOL-Library.AList" "HOL-Library.Sublist"
begin

section \<open>The world the pipeline runs in\<close>

text \<open>
  The program (\<^verbatim>\<open>src/main.py\<close>, \<^verbatim>\<open>src/entities/ku_parser.py\<close>,
  \<^verbatim>\<open>src/entities/ku_downloader.py\<close>) is a sequence of effects on a file system,
  on the geoprocessing engine (\<^verbatim>\<open>arcpy\<close>), on the log and on standard output.
  Each of them is a component of an explicit state; every Python exception is a value.

  A path is the list of its components (POSIX reading: \<^verbatim>\<open>/\<close> separates, names are
  case sensitive, there are no symbolic links). The file system is an association list
  from paths to nodes; the order of the list is the order in which a directory scan
  returns the entries. The root \<open>[]\<close> is a directory that always exists.
\<close>

type_synonym path = "string list"

datatype payload = Data string | Unreadable | Damaged string

datatype zentry = ZipInfo (filename: string) (payload: payload)

datatype fcontent = Raw string | Zip "zentry list"

datatype node = File fcontent | Dir

type_synonym filesystem = "(path \<times> node) list"

datatype error =
    FileNotFoundError | FileExistsError | NotADirectoryError | IsADirectoryError
  | BadZipFile | ExecuteError | EOFError | ConfigError | KeyError | AttributeError
  | WebDriverException
  | DownloadError error

text \<open>
  A call either returns (\<open>Ok\<close>) or raises; both carry the state the call leaves
  behind, because a raising call may already have written to the disk.
\<close>

datatype 's result = Ok 's | Raised error 's

fun state_of :: "'s result \<Rightarrow> 's" where
  "state_of (Ok s) = s"
| "state_of (Raised e s) = s"

fun is_ok :: "'s result \<Rightarrow> bool" where
  "is_ok (Ok s) = True"
| "is_ok (Raised e s) = False"

subsection \<open>File system calls (\<^verbatim>\<open>os\<close>, \<^verbatim>\<open>pathlib\<close>, \<^verbatim>\<open>shutil\<close>)\<close>

definition lookup :: "filesystem \<Rightarrow> path \<Rightarrow> node option" where
  "lookup fs p = (if p = [] then Some Dir else map_of fs p)"

text \<open>\<^verbatim>\<open>os.mkdir(p)\<close>: the path must be new and its parent a directory.\<close>

definition mkdir :: "filesystem \<Rightarrow> path \<Rightarrow> filesystem result" where
  "mkdir fs p =
     (if lookup fs p \<noteq> None then Raised FileExistsError fs
      else (case lookup fs (butlast p) of
              None \<Rightarrow> Raised FileNotFoundError fs
            | Some (File c) \<Rightarrow> Raised NotADirectoryError fs
            | Some Dir \<Rightarrow> Ok (fs @ [(p, Dir)])))"

text \<open>
  \<^verbatim>\<open>Path.mkdir(exist_ok=True)\<close> (no \<^verbatim>\<open>parents\<close>): an existing directory is
  accepted, an existing file is not.
\<close>

definition path_mkdir_exist_ok :: "filesystem \<Rightarrow> path \<Rightarrow> filesystem result" where
  "path_mkdir_exist_ok fs p =
     (if lookup fs p = Some Dir then Ok fs else mkdir fs p)"

text \<open>
  \<^verbatim>\<open>os.makedirs(p)\<close>: when the parent is missing it is made first (recursively),
  then \<^verbatim>\<open>mkdir(p)\<close>.
  \<^verbatim>\<open>
  head, tail = path.split(name)
  if head and tail and not path.exists(head):
      makedirs(head, exist_ok=exist_ok)
  mkdir(name, mode)
  \<close>
\<close>

function makedirs :: "filesystem \<Rightarrow> path \<Rightarrow> filesystem result" where
  "makedirs fs p =
     (if p \<noteq> [] \<and> butlast p \<noteq> [] \<and> lookup fs (butlast p) = None
      then (case makedirs fs (butlast p) of
              Raised e fs' \<Rightarrow> Raised e fs'
            | Ok fs' \<Rightarrow> mkdir fs' p)
      else mkdir fs p)"
  by pat_completeness auto
termination
  by (relation "measure (\<lambda>(fs, p). length p)") auto

declare makedirs.simps [simp del]

text \<open>
  \<^verbatim>\<open>open(p, "wb")\<close> followed by writing the bytes \<open>b\<close>: an existing file is
  truncated and rewritten in place, a new file appears in its (existing) directory.
\<close>

definition write_file :: "filesystem \<Rightarrow> path \<Rightarrow> string \<Rightarrow> filesystem result" where
  "write_file fs p b =
     (case lookup fs p of
        Some Dir \<Rightarrow> Raised IsADirectoryError fs
      | Some (File c) \<Rightarrow> Ok (AList.update p (File (Raw b)) fs)
      | None \<Rightarrow>
          (case lookup fs (butlast p) of
             None \<Rightarrow> Raised FileNotFoundError fs
           | Some (File c) \<Rightarrow> Raised NotADirectoryError fs
           | Some Dir \<Rightarrow> Ok (AList.update p (File (Raw b)) fs)))"

text \<open>\<^verbatim>\<open>Path.unlink()\<close>: removes a file; a directory or a missing path raises.\<close>

definition unlink :: "filesystem \<Rightarrow> path \<Rightarrow> filesystem result" where
  "unlink fs p =
     (case lookup fs p of
        None \<Rightarrow> Raised FileNotFoundError fs
      | Some Dir \<Rightarrow> Raised IsADirectoryError fs
      | Some (File c) \<Rightarrow> Ok (AList.delete p fs))"

text \<open>\<^verbatim>\<open>shutil.rmtree(p)\<close>: removes the directory and everything below it.\<close>

definition rmtree :: "filesystem \<Rightarrow> path \<Rightarrow> filesystem result" where
  "rmtree fs p =
     (case lookup fs p of
        None \<Rightarrow> Raised FileNotFoundError fs
      | Some (File c) \<Rightarrow> Raised NotADirectoryError fs
      | Some Dir \<Rightarrow> Ok (filter (\<lambda>(q, n). \<not> prefix p q) fs))"

text \<open>
  \<^verbatim>\<open>Path.glob('*' + suf)\<close>, for the two patterns the program uses (\<^verbatim>\<open>'*.zip'\<close>
  and \<^verbatim>\<open>'*'\<close>): the entries directly inside the directory whose name ends with
  \<open>suf\<close>, as full paths, in scan order. A path that is not a directory yields nothing.
  The generator scans the directory when its first item is asked for, so the list is a
  snapshot of that moment.
\<close>

definition fnmatch_suffix :: "string \<Rightarrow> string \<Rightarrow> bool" where
  "fnmatch_suffix name suf =
     (length suf \<le> length name \<and> drop (length name - length suf) name = suf)"

definition glob :: "filesystem \<Rightarrow> path \<Rightarrow> string \<Rightarrow> path list" where
  "glob fs d suf =
     (if lookup fs d = Some Dir
      then filter (\<lambda>p. p \<noteq> [] \<and> butlast p = d \<and> fnmatch_suffix (last p) suf) (map fst fs)
      else [])"

subsection \<open>The archive library (\<^verbatim>\<open>zipfile\<close>)\<close>

text \<open>
  A zip file holds its entries in order; an entry has its name inside the archive and
  its stored data, which is sound (\<open>Data\<close>), cannot be opened (\<open>Unreadable\<close>: a bad
  local header), or breaks off with a checksum error (\<open>Damaged b\<close>, where \<open>b\<close> is
  what has reached the target file by then).
  \<^verbatim>\<open>ZipFile(p)\<close> raises when \<open>p\<close> is missing, a directory, or not a zip file.
\<close>

definition ZipFile :: "filesystem \<Rightarrow> path \<Rightarrow> error + zentry list" where
  "ZipFile fs p =
     (case lookup fs p of
        None \<Rightarrow> Inl FileNotFoundError
      | Some Dir \<Rightarrow> Inl IsADirectoryError
      | Some (File (Raw b)) \<Rightarrow> Inl BadZipFile
      | Some (File (Zip es)) \<Rightarrow> Inr es)"

text \<open>Python's \<^verbatim>\<open>s.split(c)\<close>: never empty, keeps empty pieces.\<close>

fun split_on :: "char \<Rightarrow> string \<Rightarrow> string list" where
  "split_on c [] = [[]]"
| "split_on c (x # xs) =
     (if x = c then [] # split_on c xs
      else (case split_on c xs of
              [] \<Rightarrow> [[x]]
            | w # ws \<Rightarrow> (x # w) # ws))"

text \<open>
  The place of an entry below the extraction directory: the components of its name,
  without the empty ones, \<^verbatim>\<open>.\<close> and \<^verbatim>\<open>..\<close> (\<^verbatim>\<open>ZipFile._extract_member\<close>).
\<close>

definition arcname :: "zentry \<Rightarrow> path" where
  "arcname m = filter (\<lambda>x. x \<noteq> [] \<and> x \<noteq> ''.'' \<and> x \<noteq> ''..'') (split_on CHR ''/'' (filename m))"

definition is_dir :: "zentry \<Rightarrow> bool" where
  "is_dir m = (filename m \<noteq> [] \<and> last (filename m) = CHR ''/'')"

text \<open>
  \<^verbatim>\<open>
  targetpath = os.path.join(targetpath, arcname)
  upperdirs = os.path.dirname(targetpath)
  if upperdirs and not os.path.exists(upperdirs):
      os.makedirs(upperdirs)
  if member.is_dir():
      if not os.path.isdir(targetpath):
          os.mkdir(targetpath)
      return targetpath
  with self.open(member, pwd=pwd) as source, open(targetpath, "wb") as target:
      shutil.copyfileobj(source, target)
  \<close>
\<close>

definition ensure_upperdirs :: "filesystem \<Rightarrow> path \<Rightarrow> filesystem result" where
  "ensure_upperdirs fs upperdirs =
     (if upperdirs \<noteq> [] \<and> lookup fs upperdirs = None then makedirs fs upperdirs else Ok fs)"

text \<open>
  Opening the member comes before opening the target, so an unreadable member
  leaves the target alone; a damaged one is found out when its bytes are written.
\<close>

definition copy_member :: "filesystem \<Rightarrow> path \<Rightarrow> zentry \<Rightarrow> filesystem result" where
  "copy_member fs targetpath m =
     (case payload m of
        Unreadable \<Rightarrow> Raised BadZipFile fs
      | Data b \<Rightarrow> write_file fs targetpath b
      | Damaged b \<Rightarrow>
          (case write_file fs targetpath b of
             Ok fs2 \<Rightarrow> Raised BadZipFile fs2
           | Raised e fs2 \<Rightarrow> Raised e fs2))"

definition extract_member :: "filesystem \<Rightarrow> path \<Rightarrow> zentry \<Rightarrow> filesystem result" where
  "extract_member fs path m =
     (let targetpath = path @ arcname m;
          upperdirs = butlast targetpath
      in case ensure_upperdirs fs upperdirs of
           Raised e fs1 \<Rightarrow> Raised e fs1
         | Ok fs1 \<Rightarrow>
             if is_dir m
             then (if lookup fs1 targetpath = Some Dir then Ok fs1 else mkdir fs1 targetpath)
             else copy_member fs1 targetpath m)"

text \<open>\<^verbatim>\<open>ZipFile.extractall(path, members)\<close>: member after member; the first failure ends it.\<close>

fun extractall :: "filesystem \<Rightarrow> path \<Rightarrow> zentry list \<Rightarrow> filesystem result" where
  "extractall fs path [] = Ok fs"
| "extractall fs path (m # ms) =
     (case extract_member fs path m of
        Raised e fs' \<Rightarrow> Raised e fs'
      | Ok fs' \<Rightarrow> extractall fs' path ms)"

section \<open>\<^verbatim>\<open>KUParser\<close>: extraction and removal\<close>

record config =
  download_path :: path
  gdb_path :: path

definition unpacked_path :: "config \<Rightarrow> path" where
  "unpacked_path cfg = download_path cfg @ [''unpacked'']"

text \<open>
  \<^verbatim>\<open>
  def extract_zip_file(self, zip_file, to_extract):
      with ZipFile(zip_file) as zf:
          files_to_extract = filter(lambda x: x.filename.split('/')[-1] in to_extract,
                                    zf.infolist())
          zf.extractall(path=self.unpacked_path, members=files_to_extract)
  \<close>
\<close>

definition extract_zip_file :: "config \<Rightarrow> filesystem \<Rightarrow> path \<Rightarrow> string list \<Rightarrow> filesystem result" where
  "extract_zip_file cfg fs zip_file to_extract =
     (case ZipFile fs zip_file of
        Inl e \<Rightarrow> Raised e fs
      | Inr infolist \<Rightarrow>
          extractall fs (unpacked_path cfg)
            (filter (\<lambda>x. last (split_on CHR ''/'' (filename x)) \<in> set to_extract) infolist))"

definition to_extract :: "string list" where
  "to_extract =
     [''PARCELY_KN_DEF.cpg'', ''PARCELY_KN_DEF.dbf'', ''PARCELY_KN_DEF.prj'',
      ''PARCELY_KN_DEF.shp'', ''PARCELY_KN_DEF.shx'',
      ''PARCELY_KN_P.cpg'', ''PARCELY_KN_P.dbf'', ''PARCELY_KN_P.prj'',
      ''PARCELY_KN_P.shp'', ''PARCELY_KN_P.shx'']"


subsection \<open>The state of a run\<close>

text \<open>
  The geoprocessing engine keeps its environment settings and its datasets. A dataset
  name is read against \<^verbatim>\<open>arcpy.env.workspace\<close> as it is at the moment of the
  call, unless it starts with \<^verbatim>\<open>in_memory/\<close>. A feature class is its schema
  (the field names) and its rows.
\<close>

datatype location = InMemory | Workspace "path option"

record fclass =
  schema :: "string list"
  rows :: "string list"

text \<open>
  An item of the \<^verbatim>\<open>ku_list\<close> handed to \<^verbatim>\<open>remove_zip_files\<close>: a
  \<^verbatim>\<open>pathlib.Path\<close>, as \<^verbatim>\<open>glob\<close> yields them, or a file name, a
  \<^verbatim>\<open>str\<close>, as the docstring of the method describes the list.
\<close>

datatype item = PathItem path | StrItem string

datatype warning =
    ErrorExtracting path
  | ErrorRemoving item error
  | ErrorRemovingUnpacked path error
  | ErrorProcessingKU string error

datatype line =
    Done
  | ErrorOccurred error
  | RemovedUnpacked path
  | ResultingGdb path
  | EnterKUNumber

text \<open>
  The file \<^verbatim>\<open>config.yaml\<close>, when it can be read, is a dictionary; each of the
  keys the program asks for may be missing.
\<close>

record config_yaml =
  yaml_download_path :: "path option"
  yaml_gdb_path :: "path option"
  yaml_download_list :: "string list option"

record world =
  disk :: filesystem
  config_file :: "config_yaml option"
  workspace :: "path option"
  XYDomain :: "string option"
  outputCoordinateSystem :: "string option"
  overwriteOutput :: bool
  parallelProcessingFactor :: "string option"
  datasets :: "((location \<times> string) \<times> fclass) list"
  warnings :: "warning list"
  stdout :: "line list"
  stdin :: "string list"

text \<open>
  \<^verbatim>\<open>
  try:
      self.extract_zip_file(zip_file, to_extract)
  except Exception as e:
      logging.warning(f'Error extracting zip file: {zip_file}')
  \<close>
\<close>

fun extract_loop :: "config \<Rightarrow> path list \<Rightarrow> world \<Rightarrow> world" where
  "extract_loop cfg [] w = w"
| "extract_loop cfg (zip_file # zs) w =
     (case extract_zip_file cfg (disk w) zip_file to_extract of
        Ok fs' \<Rightarrow> extract_loop cfg zs (w\<lparr>disk := fs'\<rparr>)
      | Raised e fs' \<Rightarrow>
          extract_loop cfg zs (w\<lparr>disk := fs', warnings := warnings w @ [ErrorExtracting zip_file]\<rparr>))"

text \<open>
  \<^verbatim>\<open>
  self.unpacked_path = self.download_path / "unpacked"
  self.unpacked_path.mkdir(exist_ok=True)
  ...
  zip_files = self.download_path.glob('*.zip')
  for zip_file in tqdm(zip_files, ...):
  \<close>
\<close>

definition extract_zip_files :: "config \<Rightarrow> world \<Rightarrow> world result" where
  "extract_zip_files cfg w =
     (case path_mkdir_exist_ok (disk w) (unpacked_path cfg) of
        Raised e fs' \<Rightarrow> Raised e (w\<lparr>disk := fs'\<rparr>)
      | Ok fs' \<Rightarrow>
          Ok (extract_loop cfg (glob fs' (download_path cfg) ''.zip'') (w\<lparr>disk := fs'\<rparr>)))"

text \<open>
  \<^verbatim>\<open>
  if ku_list is None:
      ku_list = self.download_path.glob('*.zip')
  for ku in tqdm(ku_list, desc='Removing zip files', unit='zip'):
      try:
          ku.unlink()
      except Exception as e:
          logging.warning(f'Error removing zip file: {ku}. Error: {e}')
  \<close>
  \<^verbatim>\<open>ku.unlink()\<close> is the method of a path; a \<^verbatim>\<open>str\<close> has no such
  attribute, so asking for it raises \<^verbatim>\<open>AttributeError\<close>, inside the
  \<^verbatim>\<open>try\<close>.
\<close>

definition ku_unlink :: "filesystem \<Rightarrow> item \<Rightarrow> filesystem result" where
  "ku_unlink fs ku =
     (case ku of
        PathItem p \<Rightarrow> unlink fs p
      | StrItem s \<Rightarrow> Raised AttributeError fs)"

fun remove_loop :: "item list \<Rightarrow> world \<Rightarrow> world" where
  "remove_loop [] w = w"
| "remove_loop (ku # kus) w =
     (case ku_unlink (disk w) ku of
        Ok fs' \<Rightarrow> remove_loop kus (w\<lparr>disk := fs'\<rparr>)
      | Raised e fs' \<Rightarrow>
          remove_loop kus (w\<lparr>disk := fs', warnings := warnings w @ [ErrorRemoving ku e]\<rparr>))"

definition remove_zip_files :: "config \<Rightarrow> item list option \<Rightarrow> world \<Rightarrow> world" where
  "remove_zip_files cfg ku_list w =
     remove_loop
       (case ku_list of
          None \<Rightarrow> map PathItem (glob (disk w) (download_path cfg) ''.zip'')
        | Some l \<Rightarrow> l)
       w"

text \<open>
  \<^verbatim>\<open>
  try:
      shutil.rmtree(self.unpacked_path)
      print(f'Removed unpacked folder: {self.unpacked_path}')
  except Exception as e:
      logging.warning(f'Error removing unpacked folder: {self.unpacked_path}. Error: {e}')
  \<close>
\<close>

definition remove_unpacked_files :: "config \<Rightarrow> world \<Rightarrow> world" where
  "remove_unpacked_files cfg w =
     (case rmtree (disk w) (unpacked_path cfg) of
        Ok fs' \<Rightarrow> w\<lparr>disk := fs', stdout := stdout w @ [RemovedUnpacked (unpacked_path cfg)]\<rparr>
      | Raised e fs' \<Rightarrow>
          w\<lparr>disk := fs', warnings := warnings w @ [ErrorRemovingUnpacked (unpacked_path cfg) e]\<rparr>)"

section \<open>The geoprocessing engine (\<^verbatim>\<open>arcpy\<close>)\<close>

text \<open>
  The tools the program calls, with the contract their documentation gives: a tool
  raises \<^verbatim>\<open>ExecuteError\<close> when an input dataset does not exist, when its output
  exists and overwriting is off, and (Append, schema type TEST) when the schemas
  differ. What a spatial join computes from two shapefiles is the engine's business:
  it is the parameter \<open>sj\<close>, which reads the disk and returns the joined feature
  class, or nothing when the join fails.
\<close>

type_synonym engine = "filesystem \<Rightarrow> path \<Rightarrow> path \<Rightarrow> fclass option"

definition resolve :: "world \<Rightarrow> string \<Rightarrow> location \<times> string" where
  "resolve w name =
     (if take 10 name = ''in_memory/'' then (InMemory, drop 10 name)
      else (Workspace (workspace w), name))"

definition Exists :: "world \<Rightarrow> string \<Rightarrow> bool" where
  "Exists w name = (map_of (datasets w) (resolve w name) \<noteq> None)"

definition SpatialJoin :: "engine \<Rightarrow> world \<Rightarrow> path \<Rightarrow> path \<Rightarrow> string \<Rightarrow> world result" where
  "SpatialJoin sj w target_features join_features out_feature_class =
     (case sj (disk w) target_features join_features of
        None \<Rightarrow> Raised ExecuteError w
      | Some fc \<Rightarrow>
          if Exists w out_feature_class \<and> \<not> overwriteOutput w then Raised ExecuteError w
          else Ok (w\<lparr>datasets := AList.update (resolve w out_feature_class) fc (datasets w)\<rparr>))"

definition CopyFeatures :: "world \<Rightarrow> string \<Rightarrow> string \<Rightarrow> world result" where
  "CopyFeatures w in_features out_feature_class =
     (case map_of (datasets w) (resolve w in_features) of
        None \<Rightarrow> Raised ExecuteError w
      | Some fc \<Rightarrow>
          if Exists w out_feature_class \<and> \<not> overwriteOutput w then Raised ExecuteError w
          else Ok (w\<lparr>datasets := AList.update (resolve w out_feature_class) fc (datasets w)\<rparr>))"

definition Append_management :: "world \<Rightarrow> string \<Rightarrow> string \<Rightarrow> world result" where
  "Append_management w inputs target =
     (case map_of (datasets w) (resolve w inputs) of
        None \<Rightarrow> Raised ExecuteError w
      | Some fc \<Rightarrow>
          (case map_of (datasets w) (resolve w target) of
             None \<Rightarrow> Raised ExecuteError w
           | Some t \<Rightarrow>
               if schema fc = schema t
               then Ok (w\<lparr>datasets :=
                           AList.update (resolve w target) (t\<lparr>rows := rows t @ rows fc\<rparr>) (datasets w)\<rparr>)
               else Raised ExecuteError w))"

definition Delete_management :: "world \<Rightarrow> string \<Rightarrow> world result" where
  "Delete_management w in_data =
     (if Exists w in_data
      then Ok (w\<lparr>datasets := AList.delete (resolve w in_data) (datasets w)\<rparr>)
      else Raised ExecuteError w)"

definition CreateFileGDB_management :: "world \<Rightarrow> path \<Rightarrow> string \<Rightarrow> world result" where
  "CreateFileGDB_management w out_folder_path out_name =
     (case mkdir (disk w) (out_folder_path @ [out_name]) of
        Ok fs' \<Rightarrow> Ok (w\<lparr>disk := fs'\<rparr>)
      | Raised e fs' \<Rightarrow> Raised ExecuteError w)"

text \<open>\<^verbatim>\<open>arcpy.SpatialReference(name)\<close> builds an object; it changes nothing.\<close>

definition SpatialReference :: "string \<Rightarrow> string" where
  "SpatialReference name = name"

text \<open>\<^verbatim>\<open>input(prompt)\<close>: prints the prompt, reads a line; end of input raises.\<close>

definition input :: "world \<Rightarrow> string option \<times> world" where
  "input w =
     (let w' = w\<lparr>stdout := stdout w @ [EnterKUNumber]\<rparr>
      in case stdin w of
           [] \<Rightarrow> (None, w')
         | l # ls \<Rightarrow> (Some l, w'\<lparr>stdin := ls\<rparr>))"

section \<open>\<^verbatim>\<open>KUParser\<close>: join and accumulate\<close>

text \<open>
  \<^verbatim>\<open>
  if ku_number is None:
      ku_number = input('Enter KU number: ')
  target_fc = self.unpacked_path / ku_number / 'PARCELY_KN_P.shp'
  join_fc = self.unpacked_path / ku_number / 'PARCELY_KN_DEF.shp'
  arcpy.analysis.SpatialJoin(str(target_fc.resolve()), str(join_fc.resolve()),
                             'in_memory/spatial_join', 'JOIN_ONE_TO_ONE')
  if arcpy.Exists(f'KU'):
      arcpy.Append_management('in_memory/spatial_join', f'KU')
  else:
      arcpy.management.CopyFeatures('in_memory/spatial_join', f'KU')
  arcpy.Delete_management('in_memory/spatial_join')
  \<close>
  The unit number is one path component (it is a directory name when the driver
  supplies it).
\<close>

definition target_fc :: "config \<Rightarrow> string \<Rightarrow> path" where
  "target_fc cfg ku_number = unpacked_path cfg @ [ku_number, ''PARCELY_KN_P.shp'']"

definition join_fc :: "config \<Rightarrow> string \<Rightarrow> path" where
  "join_fc cfg ku_number = unpacked_path cfg @ [ku_number, ''PARCELY_KN_DEF.shp'']"

definition fold_into_KU :: "world \<Rightarrow> world result" where
  "fold_into_KU w =
     (if Exists w ''KU'' then Append_management w ''in_memory/spatial_join'' ''KU''
      else CopyFeatures w ''in_memory/spatial_join'' ''KU'')"

definition join_and_fold :: "engine \<Rightarrow> config \<Rightarrow> string \<Rightarrow> world \<Rightarrow> world result" where
  "join_and_fold sj cfg ku_number w =
     (case SpatialJoin sj w (target_fc cfg ku_number) (join_fc cfg ku_number)
             ''in_memory/spatial_join'' of
        Raised e w1 \<Rightarrow> Raised e w1
      | Ok w1 \<Rightarrow>
          (case fold_into_KU w1 of
             Raised e w2 \<Rightarrow> Raised e w2
           | Ok w2 \<Rightarrow> Delete_management w2 ''in_memory/spatial_join''))"

definition process_single_ku :: "engine \<Rightarrow> config \<Rightarrow> string option \<Rightarrow> world \<Rightarrow> world result" where
  "process_single_ku sj cfg ku_number w =
     (case ku_number of
        Some k \<Rightarrow> join_and_fold sj cfg k w
      | None \<Rightarrow>
          (case input w of
             (None, w') \<Rightarrow> Raised EOFError w'
           | (Some k, w') \<Rightarrow> join_and_fold sj cfg k w'))"

text \<open>
  \<^verbatim>\<open>
  for ku in tqdm(ku_names, desc='Uploading data to GDB', unit='KU'):
      try:
          self.process_single_ku(ku.name)
      except Exception as e:
          logging.warning(f'Error processing KU: {ku.name}. Error: {e}')
  \<close>
\<close>

fun upload_loop :: "engine \<Rightarrow> config \<Rightarrow> path list \<Rightarrow> world \<Rightarrow> world" where
  "upload_loop sj cfg [] w = w"
| "upload_loop sj cfg (ku # kus) w =
     (case process_single_ku sj cfg (Some (last ku)) w of
        Ok w' \<Rightarrow> upload_loop sj cfg kus w'
      | Raised e w' \<Rightarrow>
          upload_loop sj cfg kus (w'\<lparr>warnings := warnings w' @ [ErrorProcessingKU (last ku) e]\<rparr>))"

text \<open>
  \<^verbatim>\<open>
  if not self.gdb_path.exists():
      arcpy.CreateFileGDB_management(str(self.gdb_path.parent), self.gdb_path.name)
  else:
      arcpy.arcpy.Delete_management('KU')
  arcpy.env.workspace = str(self.gdb_path)
  arcpy.env.XYDomain = "-916406 -1234597 -419902 -738093"
  sr = arcpy.SpatialReference("S-JTSK_Krovak_East_North")
  arcpy.env.overwriteOutput = True
  arcpy.env.parallelProcessingFactor = "100%"
  ku_names = self.unpacked_path.glob('*')
  for ku in tqdm(ku_names, ...): ...
  print(f'Resulting GDB file path: {self.gdb_path}')
  \<close>
\<close>

definition workspace_setup :: "config \<Rightarrow> world \<Rightarrow> world result" where
  "workspace_setup cfg w =
     (case (if lookup (disk w) (gdb_path cfg) = None
            then CreateFileGDB_management w (butlast (gdb_path cfg)) (last (gdb_path cfg))
            else Delete_management w ''KU'') of
        Raised e w1 \<Rightarrow> Raised e w1
      | Ok w1 \<Rightarrow>
          (let w2 = w1\<lparr>workspace := Some (gdb_path cfg)\<rparr>;
               w3 = w2\<lparr>XYDomain := Some ''-916406 -1234597 -419902 -738093''\<rparr>;
               sr = SpatialReference ''S-JTSK_Krovak_East_North'';
               w4 = w3\<lparr>overwriteOutput := True\<rparr>;
               w5 = w4\<lparr>parallelProcessingFactor := Some ''100%''\<rparr>
           in Ok w5))"

definition upload_data_to_gdb :: "engine \<Rightarrow> config \<Rightarrow> world \<Rightarrow> world result" where
  "upload_data_to_gdb sj cfg w =
     (case workspace_setup cfg w of
        Raised e w1 \<Rightarrow> Raised e w1
      | Ok w1 \<Rightarrow>
          (let w2 = upload_loop sj cfg (glob (disk w1) (unpacked_path cfg) []) w1
           in Ok (w2\<lparr>stdout := stdout w2 @ [ResultingGdb (gdb_path cfg)]\<rparr>)))"

section \<open>\<^verbatim>\<open>KuDownloader\<close> and the driver\<close>

text \<open>
  The browser is outside the program: whether it starts, which links the catalogue
  page shows (or that loading it fails), and what a click on a link does to the disk.
  \<^verbatim>\<open>
  try:
      self.driver.get('https://services.cuzk.cz/shp/ku/epsg-5514/')
      x = self.driver.find_elements(By.CSS_SELECTOR, 'a')
      for link in tqdm(x[2:], desc='Downloading KUs', unit='KU'):
          link.click()
  except Exception as e:
      raise Exception(f"Error occurred while downloading KUs. Error: {e}") from e
  \<close>
\<close>

record browser =
  starts :: bool
  find_elements :: "string list option"
  click :: "string \<Rightarrow> filesystem \<Rightarrow> filesystem result"

text \<open>
  \<^verbatim>\<open>
  with open(config_file_path, 'r') as file:
      config = yaml.safe_load(file)
  self.download_path = Path(config['download_path']).resolve()
  if not self.download_path.exists():
      d_path = Path(__file__).parent.parent/self.download_path
      d_path.mkdir()
  ...
  self.driver = webdriver.Chrome(options=options)
  self.download_list = config['download_list']
  \<close>
  The download path is absolute, so \<^verbatim>\<open>d_path\<close> is the download path itself.
\<close>

definition KuDownloader_init :: "browser \<Rightarrow> world \<Rightarrow> world result" where
  "KuDownloader_init br w =
     (case config_file w of
        None \<Rightarrow> Raised ConfigError w
      | Some config \<Rightarrow>
          (case yaml_download_path config of
             None \<Rightarrow> Raised KeyError w
           | Some d \<Rightarrow>
               (case (if lookup (disk w) d = None then mkdir (disk w) d else Ok (disk w)) of
                  Raised e fs' \<Rightarrow> Raised e (w\<lparr>disk := fs'\<rparr>)
                | Ok fs' \<Rightarrow>
                    if \<not> starts br then Raised WebDriverException (w\<lparr>disk := fs'\<rparr>)
                    else (case yaml_download_list config of
                            None \<Rightarrow> Raised KeyError (w\<lparr>disk := fs'\<rparr>)
                          | Some l \<Rightarrow> Ok (w\<lparr>disk := fs'\<rparr>)))))"

fun click_all :: "browser \<Rightarrow> string list \<Rightarrow> world \<Rightarrow> world result" where
  "click_all br [] w = Ok w"
| "click_all br (link # links) w =
     (case click br link (disk w) of
        Raised e fs' \<Rightarrow> Raised (DownloadError e) (w\<lparr>disk := fs'\<rparr>)
      | Ok fs' \<Rightarrow> click_all br links (w\<lparr>disk := fs'\<rparr>))"

definition download_all_kus :: "browser \<Rightarrow> world \<Rightarrow> world result" where
  "download_all_kus br w =
     (case find_elements br of
        None \<Rightarrow> Raised (DownloadError WebDriverException) w
      | Some x \<Rightarrow> click_all br (drop 2 x) w)"

text \<open>\<^verbatim>\<open>KuDownloader()\<close> followed by \<^verbatim>\<open>download_all_kus()\<close>.\<close>

definition fetch_stage :: "browser \<Rightarrow> world \<Rightarrow> world result" where
  "fetch_stage br w =
     (case KuDownloader_init br w of
        Raised e w1 \<Rightarrow> Raised e w1
      | Ok w1 \<Rightarrow> download_all_kus br w1)"

text \<open>
  \<^verbatim>\<open>KUParser()\<close> reads the configuration; the object is its paths.
  \<^verbatim>\<open>
  self.download_path = Path(config['download_path']).resolve()
  self.unpacked_path = self.download_path / "unpacked"
  self.gdb_path = Path(config['gdb_path']).resolve()
  \<close>
\<close>

definition KUParser_init :: "world \<Rightarrow> error + config" where
  "KUParser_init w =
     (case config_file w of
        None \<Rightarrow> Inl ConfigError
      | Some config \<Rightarrow>
          (case yaml_download_path config of
             None \<Rightarrow> Inl KeyError
           | Some d \<Rightarrow>
               (case yaml_gdb_path config of
                  None \<Rightarrow> Inl KeyError
                | Some g \<Rightarrow> Inr \<lparr>download_path = d, gdb_path = g\<rparr>)))"

text \<open>
  \<^verbatim>\<open>
  def download_and_process_kus():
      try:
          kd = KuDownloader()
          kd.download_all_kus()
          kp = KUParser()
          kp.extract_zip_files()
          kp.upload_data_to_gdb()
          kp.remove_zip_files()
          kp.remove_unpacked_files()
          print('Done')
      except Exception as e:
          print(f"An error occurred: {e}")
  \<close>
\<close>

definition try_body :: "browser \<Rightarrow> engine \<Rightarrow> world \<Rightarrow> world result" where
  "try_body br sj w =
     (case fetch_stage br w of
        Raised e w1 \<Rightarrow> Raised e w1
      | Ok w1 \<Rightarrow>
          (case KUParser_init w1 of
             Inl e \<Rightarrow> Raised e w1
           | Inr kp \<Rightarrow>
               (case extract_zip_files kp w1 of
                  Raised e w2 \<Rightarrow> Raised e w2
                | Ok w2 \<Rightarrow>
                    (case upload_data_to_gdb sj kp w2 of
                       Raised e w3 \<Rightarrow> Raised e w3
                     | Ok w3 \<Rightarrow>
                         (let w4 = remove_zip_files kp None w3;
                              w5 = remove_unpacked_files kp w4
                          in Ok (w5\<lparr>stdout := stdout w5 @ [Done]\<rparr>))))))"

definition download_and_process_kus :: "browser \<Rightarrow> engine \<Rightarrow> world \<Rightarrow> world" where
  "download_and_process_kus br sj w =
     (case try_body br sj w of
        Ok w' \<Rightarrow> w'
      | Raised e w' \<Rightarrow> w'\<lparr>stdout := stdout w' @ [ErrorOccurred e]\<rparr>)"

section \<open>Notions for stating the properties\<close>

text \<open>New, empty directories at the end of the scan order.\<close>

definition dirs :: "path list \<Rightarrow> filesystem" where
  "dirs ds = map (\<lambda>q. (q, Dir)) ds"

text \<open>The filter of \<^verbatim>\<open>extract_zip_file\<close> with the manifest of \<^verbatim>\<open>extract_zip_files\<close>.\<close>

definition selected :: "zentry \<Rightarrow> bool" where
  "selected x = (last (split_on CHR ''/'' (filename x)) \<in> set to_extract)"

text \<open>
  A disk is well formed when no path is listed twice and every entry lies in a
  directory.
\<close>

definition wf_fs :: "filesystem \<Rightarrow> bool" where
  "wf_fs fs =
     (distinct (map fst fs)
      \<and> list_all (\<lambda>p. p \<noteq> [] \<and> lookup fs (butlast p) = Some Dir) (map fst fs))"

text \<open>Every entry of \<open>X\<close> is in \<open>Y\<close>, as a file if it is a file, as a directory if it is one.\<close>

definition kinds_le :: "filesystem \<Rightarrow> filesystem \<Rightarrow> bool" where
  "kinds_le X Y =
     (\<forall>p n. lookup X p = Some n \<longrightarrow> (\<exists>n'. lookup Y p = Some n' \<and> (n = Dir \<longleftrightarrow> n' = Dir)))"

text \<open>
  The relation between the two runs of an extraction: \<open>F\<close> is the disk at the end of
  the first run, \<open>X\<close> a disk on the way of the first run, \<open>Y\<close> the disk at the same
  point of the second run. \<open>Y\<close> has the entries of \<open>F\<close>, in its order and of its
  kinds, and every path reads in \<open>Y\<close> as in \<open>X\<close> or as in \<open>F\<close>.
\<close>

definition again :: "filesystem \<Rightarrow> filesystem \<Rightarrow> filesystem \<Rightarrow> bool" where
  "again F X Y =
     (wf_fs Y \<and> map fst Y = map fst F \<and> kinds_le Y F \<and> kinds_le F Y
      \<and> (\<forall>p. lookup Y p = lookup X p \<or> lookup Y p = lookup F p))"

text \<open>The unit a call of \<^verbatim>\<open>process_single_ku\<close> works on.\<close>

definition unit_asked :: "string option \<Rightarrow> world \<Rightarrow> string" where
  "unit_asked ku_number w = (case ku_number of Some k \<Rightarrow> k | None \<Rightarrow> hd (stdin w))"


section \<open>A small run: two sound archives and a broken one\<close>

definition ex_cfg :: config where
  "ex_cfg = \<lparr>download_path = [''d''], gdb_path = [''g'', ''ku.gdb'']\<rparr>"

definition ex_yaml :: config_yaml where
  "ex_yaml =
     \<lparr>yaml_download_path = Some [''d''], yaml_gdb_path = Some [''g'', ''ku.gdb''],
      yaml_download_list = Some []\<rparr>"

definition ex_zip100 :: fcontent where
  "ex_zip100 =
     Zip [ZipInfo ''100/PARCELY_KN_P.shp'' (Data ''p100''),
          ZipInfo ''100/readme.txt'' (Data ''r''),
          ZipInfo ''100/PARCELY_KN_DEF.shp'' (Data ''q100'')]"

definition ex_zip101 :: fcontent where
  "ex_zip101 =
     Zip [ZipInfo ''101/PARCELY_KN_DEF.shp'' (Data ''q101''),
          ZipInfo ''101/PARCELY_KN_P.shp'' (Data ''p101'')]"

definition ex_disk :: filesystem where
  "ex_disk =
     [([''d''], Dir), ([''g''], Dir),
      ([''d'', ''100.zip''], File ex_zip100),
      ([''d'', ''bad.zip''], File (Raw ''xx'')),
      ([''d'', ''101.zip''], File ex_zip101),
      ([''d'', ''notes.txt''], File (Raw ''n''))]"

definition ex_world :: world where
  "ex_world =
     \<lparr>disk = ex_disk, config_file = Some ex_yaml, workspace = None, XYDomain = None,
      outputCoordinateSystem = None, overwriteOutput = False,
      parallelProcessingFactor = None, datasets = [], warnings = [], stdout = [],
      stdin = []\<rparr>"

text \<open>The same disk after an extraction, with a directory whose name ends in \<^verbatim>\<open>.zip\<close>.\<close>

definition ex_unpacked :: world where
  "ex_unpacked =
     ex_world\<lparr>disk := ex_disk @
       [([''d'', ''unpacked''], Dir),
        ([''d'', ''unpacked'', ''100''], Dir),
        ([''d'', ''unpacked'', ''100'', ''PARCELY_KN_P.shp''], File (Raw ''p100'')),
        ([''d'', ''unpacked'', ''100'', ''old.zip''], File (Raw ''z'')),
        ([''d'', ''dir.zip''], Dir)]\<rparr>"

text \<open>
  An engine for the small run: the join of two readable shapefiles is one row made of
  their bytes, with the schema \<open>[id]\<close>; a missing shapefile makes the join fail.
\<close>

definition ex_sj :: engine where
  "ex_sj fs t j =
     (case (lookup fs t, lookup fs j) of
        (Some (File (Raw a)), Some (File (Raw b))) \<Rightarrow> Some \<lparr>schema = [''id''], rows = [a @ b]\<rparr>
      | _ \<Rightarrow> None)"

definition ex_browser :: browser where
  "ex_browser = \<lparr>starts = True, find_elements = Some [], click = (\<lambda>l fs. Ok fs)\<rparr>"

definition ex_offline :: browser where
  "ex_offline = \<lparr>starts = True, find_elements = None, click = (\<lambda>l fs. Ok fs)\<rparr>"

text \<open>Unit 100 extracted, the geodatabase present and set as workspace.\<close>

definition ex_ready :: world where
  "ex_ready =
     ex_world\<lparr>disk := ex_disk @
         [([''d'', ''unpacked''], Dir),
          ([''d'', ''unpacked'', ''100''], Dir),
          ([''d'', ''unpacked'', ''100'', ''PARCELY_KN_P.shp''], File (Raw ''p100'')),
          ([''d'', ''unpacked'', ''100'', ''PARCELY_KN_DEF.shp''], File (Raw ''q100'')),
          ([''g'', ''ku.gdb''], Dir)],
       workspace := Some [''g'', ''ku.gdb''], overwriteOutput := True\<rparr>"

definition ex_KU :: "location \<times> string" where
  "ex_KU = (Workspace (Some [''g'', ''ku.gdb'']), ''KU'')"

definition ex_filled :: world where
  "ex_filled = ex_ready\<lparr>datasets := [(ex_KU, \<lparr>schema = [''id''], rows = [''old'']\<rparr>)]\<rparr>"

definition ex_mismatch :: world where
  "ex_mismatch = ex_ready\<lparr>datasets := [(ex_KU, \<lparr>schema = [''name''], rows = [''old'']\<rparr>)]\<rparr>"

text \<open>
  The start of a second run: the geodatabase and its store are there from the first
  run, the process is new, so no workspace is set yet (or another one is).
\<close>

definition ex_second_run :: world where
  "ex_second_run = ex_filled\<lparr>workspace := None, overwriteOutput := False\<rparr>"

definition ex_other_ws :: world where
  "ex_other_ws =
     ex_filled\<lparr>workspace := Some [''project.gdb''],
       datasets := [(ex_KU, \<lparr>schema = [''id''], rows = [''old'']\<rparr>),
                    ((Workspace (Some [''project.gdb'']), ''KU''), \<lparr>schema = [''x''], rows = [''y'']\<rparr>)]\<rparr>"

text \<open>
  A configuration without the geodatabase path, and a disk without the folder the
  geodatabase is to be made in.
\<close>

definition ex_no_gdb_key :: world where
  "ex_no_gdb_key = ex_world\<lparr>config_file := Some (ex_yaml\<lparr>yaml_gdb_path := None\<rparr>)\<rparr>"

definition ex_no_gdb_folder :: world where
  "ex_no_gdb_folder = ex_world\<lparr>disk := [([''d''], Dir)]\<rparr>"

text \<open>A file where the unpacked directory should be.\<close>

definition ex_blocked :: world where
  "ex_blocked = ex_world\<lparr>disk := ex_disk @ [([''d'', ''unpacked''], File (Raw ''f''))]\<rparr>"

text \<open>An archive whose entries are not under a directory named like the archive.\<close>

definition ex_flat :: world where
  "ex_flat =
     ex_world\<lparr>disk :=
       [([''d''], Dir), ([''d'', ''unpacked''], Dir),
        ([''d'', ''200.zip''],
           File (Zip [ZipInfo ''PARCELY_KN_P.shp'' (Data ''p200''),
                      ZipInfo ''KU200/data/PARCELY_KN_DEF.shp'' (Data ''q200'')]))]\<rparr>"

text \<open>An archive that holds two of the ten manifest files.\<close>

definition ex_partial :: world where
  "ex_partial =
     ex_world\<lparr>disk :=
       [([''d''], Dir),
        ([''d'', ''300.zip''],
           File (Zip [ZipInfo ''300/PARCELY_KN_P.shp'' (Data ''p300''),
                      ZipInfo ''300/PARCELY_KN_P.dbf'' (Data ''d300''),
                      ZipInfo ''300/BUDOVY_P.shp'' (Data ''b300'')]))]\<rparr>"

text \<open>
  The staging directory with its unpacked directory made; a disk with three units
  unpacked, of which unit 102 lacks a layer; and the same after the workspace setup.
\<close>

definition ex_staged :: world where
  "ex_staged = ex_world\<lparr>disk := ex_disk @ [([''d'', ''unpacked''], Dir)]\<rparr>"

definition ex_extracted :: world where
  "ex_extracted =
     ex_world\<lparr>disk := ex_disk @
         [([''d'', ''unpacked''], Dir),
          ([''d'', ''unpacked'', ''100''], Dir),
          ([''d'', ''unpacked'', ''100'', ''PARCELY_KN_P.shp''], File (Raw ''p100'')),
          ([''d'', ''unpacked'', ''100'', ''PARCELY_KN_DEF.shp''], File (Raw ''q100'')),
          ([''d'', ''unpacked'', ''102''], Dir),
          ([''d'', ''unpacked'', ''102'', ''PARCELY_KN_P.shp''], File (Raw ''p102'')),
          ([''d'', ''unpacked'', ''101''], Dir),
          ([''d'', ''unpacked'', ''101'', ''PARCELY_KN_DEF.shp''], File (Raw ''q101'')),
          ([''d'', ''unpacked'', ''101'', ''PARCELY_KN_P.shp''], File (Raw ''p101''))]\<rparr>"

definition ex_units :: world where
  "ex_units =
     ex_extracted\<lparr>disk := disk ex_extracted @ [([''g'', ''ku.gdb''], Dir)],
       workspace := Some [''g'', ''ku.gdb''],
       XYDomain := Some ''-916406 -1234597 -419902 -738093'',
       overwriteOutput := True,
       parallelProcessingFactor := Some ''100%''\<rparr>"

text \<open>
  A staging directory with an archive that breaks off after its two shapefiles: the
  third manifest entry cannot be read.
\<close>

definition ex_torn :: world where
  "ex_torn =
     ex_world\<lparr>disk :=
       [([''d''], Dir), ([''g''], Dir),
        ([''d'', ''102.zip''],
           File (Zip [ZipInfo ''102/PARCELY_KN_P.shp'' (Data ''p102''),
                      ZipInfo ''102/PARCELY_KN_DEF.shp'' (Data ''q102''),
                      ZipInfo ''102/PARCELY_KN_P.dbf'' Unreadable])),
        ([''d'', ''100.zip''], File ex_zip100)]\<rparr>"

section \<open>Unfolding rules for the examples\<close>

lemmas ex_defs =
  ex_cfg_def ex_yaml_def ex_no_gdb_key_def ex_no_gdb_folder_def ex_zip100_def ex_zip101_def ex_disk_def ex_world_def ex_unpacked_def
  ex_sj_def ex_browser_def ex_offline_def ex_ready_def ex_KU_def ex_filled_def ex_mismatch_def
  ex_second_run_def ex_other_ws_def ex_blocked_def ex_flat_def ex_partial_def
  ex_staged_def ex_extracted_def ex_units_def ex_torn_def

lemmas arcpy_defs =
  resolve_def Exists_def SpatialJoin_def CopyFeatures_def Append_management_def
  Delete_management_def CreateFileGDB_management_def fold_into_KU_def join_and_fold_def
  process_single_ku_def target_fc_def join_fc_def

lemmas fs_defs =
  lookup_def glob_def fnmatch_suffix_def unlink_def ku_unlink_def mkdir_def path_mkdir_exist_ok_def
  write_file_def rmtree_def unpacked_path_def

lemmas zip_defs =
  ZipFile_def arcname_def is_dir_def ensure_upperdirs_def copy_member_def extract_member_def
  extract_zip_file_def extract_zip_files_def to_extract_def

section \<open>Properties of the file system calls\<close>

lemma lookup_Nil [simp]: "lookup fs [] = Some Dir"
  by (simp add: lookup_def)

lemma lookup_delete:
  "lookup (AList.delete k fs) p = (if p = k \<and> p \<noteq> [] then None else lookup fs p)"
  by (simp add: lookup_def delete_conv')

lemma lookup_update:
  "lookup (AList.update k v fs) p =
     (if p = [] then Some Dir else if p = k then Some v else lookup fs p)"
  by (simp add: lookup_def update_conv')

lemma lookup_keys: "lookup fs p = Some n \<Longrightarrow> p \<noteq> [] \<Longrightarrow> p \<in> set (map fst fs)"
  by (force simp: lookup_def dest: map_of_SomeD)

lemma glob_member:
  "p \<in> set (glob fs d suf) \<longleftrightarrow>
     lookup fs d = Some Dir \<and> p \<in> set (map fst fs) \<and> p \<noteq> [] \<and> butlast p = d
       \<and> fnmatch_suffix (last p) suf"
  by (auto simp: glob_def)

lemma child_path: "p \<noteq> [] \<and> butlast p = d \<and> P (last p) \<longleftrightarrow> (\<exists>n. p = d @ [n] \<and> P n)"
  by (metis append_butlast_last_id butlast_snoc last_snoc snoc_eq_iff_butlast)

section \<open>Cleanup: removal of the archives\<close>

lemma unlink_lookup:
  "lookup (state_of (unlink fs k)) p =
     (if p = k \<and> (\<exists>c. lookup fs k = Some (File c)) then None else lookup fs p)"
  by (auto simp: unlink_def lookup_delete split: option.splits node.splits)

lemma ku_unlink_lookup:
  "lookup (state_of (ku_unlink fs k)) p =
     (if k = PathItem p \<and> (\<exists>c. lookup fs p = Some (File c)) then None else lookup fs p)"
  by (cases k) (auto simp: ku_unlink_def unlink_lookup)

lemma remove_loop_lookup:
  "lookup (disk (remove_loop ks w)) p =
     (if PathItem p \<in> set ks \<and> (\<exists>c. lookup (disk w) p = Some (File c)) then None
      else lookup (disk w) p)"
proof (induction ks arbitrary: w)
  case Nil
  then show ?case by simp
next
  case (Cons k ks)
  have step: "lookup (disk (remove_loop (k # ks) w)) p =
      (if PathItem p \<in> set ks \<and> (\<exists>c. lookup (state_of (ku_unlink (disk w) k)) p = Some (File c))
       then None
       else lookup (state_of (ku_unlink (disk w) k)) p)"
    by (cases "ku_unlink (disk w) k") (auto simp: Cons.IH)
  show ?case unfolding step ku_unlink_lookup by auto
qed

lemma remove_loop_StrItem:
  "remove_loop (map StrItem names) w =
     w\<lparr>warnings := warnings w @ map (\<lambda>n. ErrorRemoving (StrItem n) AttributeError) names\<rparr>"
  by (induction names arbitrary: w) (simp_all add: ku_unlink_def)

text \<open>
  C9. The method documents the subset as the file names of the archives to remove. A
  file name is a \<^verbatim>\<open>str\<close>, and the loop calls \<^verbatim>\<open>ku.unlink()\<close> on it as if
  it were a path: every item raises inside the \<^verbatim>\<open>try\<close>, is logged, and nothing
  is removed. After \<^verbatim>\<open>remove_zip_files(['100.zip'])\<close> the archive
  \<^verbatim>\<open>100.zip\<close> is still in the download directory.
\<close>

theorem file_names_remove_nothing:
  "remove_zip_files cfg (Some (map StrItem names)) w =
     w\<lparr>warnings := warnings w @ map (\<lambda>n. ErrorRemoving (StrItem n) AttributeError) names\<rparr>
   \<and> lookup (disk (remove_zip_files ex_cfg (Some [StrItem ''100.zip'']) ex_world)) [''d'', ''100.zip'']
       = Some (File ex_zip100)
   \<and> warnings (remove_zip_files ex_cfg (Some [StrItem ''100.zip'']) ex_world)
       = [ErrorRemoving (StrItem ''100.zip'') AttributeError]"
proof -
  have g: "remove_zip_files cfg (Some (map StrItem names)) w =
     w\<lparr>warnings := warnings w @ map (\<lambda>n. ErrorRemoving (StrItem n) AttributeError) names\<rparr>"
    for cfg names w
    by (simp add: remove_zip_files_def remove_loop_StrItem)
  from g [of ex_cfg "[''100.zip'']" ex_world]
  have "remove_zip_files ex_cfg (Some [StrItem ''100.zip'']) ex_world =
      ex_world\<lparr>warnings := warnings ex_world @ [ErrorRemoving (StrItem ''100.zip'') AttributeError]\<rparr>"
    by simp
  then have "lookup (disk (remove_zip_files ex_cfg (Some [StrItem ''100.zip'']) ex_world)) [''d'', ''100.zip'']
       = Some (File ex_zip100)"
    "warnings (remove_zip_files ex_cfg (Some [StrItem ''100.zip'']) ex_world)
       = [ErrorRemoving (StrItem ''100.zip'') AttributeError]"
    by (simp_all add: ex_defs lookup_def)
  with g show ?thesis by blast
qed

text \<open>
  C10. Without a subset, the only paths the removal changes are files directly inside
  the download directory whose name ends in \<^verbatim>\<open>.zip\<close>, and these are deleted;
  every other path (the unpacked tree, other files, directories) reads as before.
\<close>

theorem remove_zip_files_frame:
  "lookup (disk (remove_zip_files cfg None w)) p =
     (if lookup (disk w) (download_path cfg) = Some Dir
         \<and> (\<exists>n. p = download_path cfg @ [n] \<and> fnmatch_suffix n ''.zip'')
         \<and> (\<exists>c. lookup (disk w) p = Some (File c))
      then None else lookup (disk w) p)"
proof -
  have "p \<in> set (glob (disk w) (download_path cfg) ''.zip'') \<and> (\<exists>c. lookup (disk w) p = Some (File c))
     \<longleftrightarrow> lookup (disk w) (download_path cfg) = Some Dir
         \<and> (\<exists>n. p = download_path cfg @ [n] \<and> fnmatch_suffix n ''.zip'')
         \<and> (\<exists>c. lookup (disk w) p = Some (File c))"
    using child_path [of p "download_path cfg" "\<lambda>n. fnmatch_suffix n ''.zip''"]
    by (auto simp: glob_member dest: lookup_keys)
  moreover have "PathItem p \<in> set (map PathItem (glob (disk w) (download_path cfg) ''.zip''))
     \<longleftrightarrow> p \<in> set (glob (disk w) (download_path cfg) ''.zip'')"
    by auto
  ultimately show ?thesis
    by (simp only: remove_zip_files_def remove_loop_lookup option.case)
qed

theorem remove_zip_files_frame_witness:
  "lookup (disk (remove_zip_files ex_cfg None ex_unpacked)) [''d'', ''unpacked'', ''100'', ''old.zip'']
     = Some (File (Raw ''z''))
   \<and> lookup (disk (remove_zip_files ex_cfg None ex_unpacked)) [''d'', ''notes.txt''] = Some (File (Raw ''n''))
   \<and> lookup (disk (remove_zip_files ex_cfg None ex_unpacked)) [''d'', ''dir.zip''] = Some Dir
   \<and> lookup (disk (remove_zip_files ex_cfg None ex_unpacked)) [''d'', ''bad.zip''] = None"
  unfolding remove_zip_files_frame
  by (simp add: ex_defs lookup_def fnmatch_suffix_def)

section \<open>The driver\<close>

lemma mkdir_Raised: "mkdir fs p = Raised e fs' \<Longrightarrow> fs' = fs"
  by (auto simp: mkdir_def split: if_splits option.splits node.splits)

lemma extract_zip_files_Raised: "extract_zip_files kp w = Raised e w' \<Longrightarrow> w' = w"
  by (auto simp: extract_zip_files_def path_mkdir_exist_ok_def split: result.splits if_splits dest: mkdir_Raised)

lemma workspace_setup_Raised: "workspace_setup cfg w = Raised e w' \<Longrightarrow> w' = w"
  by (auto simp: workspace_setup_def CreateFileGDB_management_def Delete_management_def Let_def
      split: result.splits if_splits)

lemma upload_data_to_gdb_Raised: "upload_data_to_gdb sj kp w = Raised e w' \<Longrightarrow> w' = w"
  by (auto simp: upload_data_to_gdb_def Let_def split: result.splits dest: workspace_setup_Raised)

text \<open>
  C8. When a stage raises, the driver's result is the world as the failing stage left
  it, with the one line \<^verbatim>\<open>An error occurred: ...\<close> added to the output: no later
  stage has run, so neither cleanup step has touched the disk. A failure at the start
  of the extraction or of the accumulation leaves the world exactly as that stage
  found it. The driver always returns.
\<close>

theorem hard_failure_skips_cleanup:
  "(fetch_stage br w = Raised e wa \<longrightarrow>
      download_and_process_kus br sj w = wa\<lparr>stdout := stdout wa @ [ErrorOccurred e]\<rparr>)
   \<and> (fetch_stage br w = Ok wa \<and> KUParser_init wa = Inl e \<longrightarrow>
      download_and_process_kus br sj w = wa\<lparr>stdout := stdout wa @ [ErrorOccurred e]\<rparr>)
   \<and> (fetch_stage br w = Ok wa \<and> KUParser_init wa = Inr kp \<and> extract_zip_files kp wa = Raised e wb \<longrightarrow>
      wb = wa \<and> download_and_process_kus br sj w = wa\<lparr>stdout := stdout wa @ [ErrorOccurred e]\<rparr>)
   \<and> (fetch_stage br w = Ok wa \<and> KUParser_init wa = Inr kp \<and> extract_zip_files kp wa = Ok wb
        \<and> upload_data_to_gdb sj kp wb = Raised e wc \<longrightarrow>
      wc = wb \<and> download_and_process_kus br sj w = wb\<lparr>stdout := stdout wb @ [ErrorOccurred e]\<rparr>)"
proof (intro conjI impI)
  assume "fetch_stage br w = Raised e wa"
  then show "download_and_process_kus br sj w = wa\<lparr>stdout := stdout wa @ [ErrorOccurred e]\<rparr>"
    by (simp add: download_and_process_kus_def try_body_def)
next
  assume "fetch_stage br w = Ok wa \<and> KUParser_init wa = Inl e"
  then show "download_and_process_kus br sj w = wa\<lparr>stdout := stdout wa @ [ErrorOccurred e]\<rparr>"
    by (simp add: download_and_process_kus_def try_body_def)
next
  assume a: "fetch_stage br w = Ok wa \<and> KUParser_init wa = Inr kp \<and> extract_zip_files kp wa = Raised e wb"
  then show "wb = wa" by (blast dest: extract_zip_files_Raised)
  with a show "download_and_process_kus br sj w = wa\<lparr>stdout := stdout wa @ [ErrorOccurred e]\<rparr>"
    by (simp add: download_and_process_kus_def try_body_def)
next
  assume a: "fetch_stage br w = Ok wa \<and> KUParser_init wa = Inr kp \<and> extract_zip_files kp wa = Ok wb
        \<and> upload_data_to_gdb sj kp wb = Raised e wc"
  then show "wc = wb" by (blast dest: upload_data_to_gdb_Raised)
  with a show "download_and_process_kus br sj w = wb\<lparr>stdout := stdout wb @ [ErrorOccurred e]\<rparr>"
    by (simp add: download_and_process_kus_def try_body_def)
qed

theorem hard_failure_skips_cleanup_witness:
  "fetch_stage ex_offline ex_world = Raised (DownloadError WebDriverException) ex_world
   \<and> download_and_process_kus ex_offline ex_sj ex_world
       = ex_world\<lparr>stdout := stdout ex_world @ [ErrorOccurred (DownloadError WebDriverException)]\<rparr>
   \<and> fetch_stage ex_browser ex_no_gdb_key = Ok ex_no_gdb_key
   \<and> KUParser_init ex_no_gdb_key = Inl KeyError
   \<and> download_and_process_kus ex_browser ex_sj ex_no_gdb_key
       = ex_no_gdb_key\<lparr>stdout := stdout ex_no_gdb_key @ [ErrorOccurred KeyError]\<rparr>
   \<and> fetch_stage ex_browser ex_blocked = Ok ex_blocked
   \<and> KUParser_init ex_blocked = Inr ex_cfg
   \<and> extract_zip_files ex_cfg ex_blocked = Raised FileExistsError ex_blocked
   \<and> download_and_process_kus ex_browser ex_sj ex_blocked
       = ex_blocked\<lparr>stdout := stdout ex_blocked @ [ErrorOccurred FileExistsError]\<rparr>
   \<and> lookup (disk (download_and_process_kus ex_browser ex_sj ex_blocked)) [''d'', ''100.zip'']
       = Some (File ex_zip100)
   \<and> fetch_stage ex_browser ex_no_gdb_folder = Ok ex_no_gdb_folder
   \<and> KUParser_init ex_no_gdb_folder = Inr ex_cfg
   \<and> extract_zip_files ex_cfg ex_no_gdb_folder
       = Ok (ex_no_gdb_folder\<lparr>disk := [([''d''], Dir), ([''d'', ''unpacked''], Dir)]\<rparr>)
   \<and> upload_data_to_gdb ex_sj ex_cfg (ex_no_gdb_folder\<lparr>disk := [([''d''], Dir), ([''d'', ''unpacked''], Dir)]\<rparr>)
       = Raised ExecuteError (ex_no_gdb_folder\<lparr>disk := [([''d''], Dir), ([''d'', ''unpacked''], Dir)]\<rparr>)
   \<and> download_and_process_kus ex_browser ex_sj ex_no_gdb_folder
       = ex_no_gdb_folder\<lparr>disk := [([''d''], Dir), ([''d'', ''unpacked''], Dir)],
                           stdout := [ErrorOccurred ExecuteError]\<rparr>"
proof -
  let ?w2 = "ex_no_gdb_folder\<lparr>disk := [([''d''], Dir), ([''d'', ''unpacked''], Dir)]\<rparr>"
  have a: "fetch_stage ex_offline ex_world = Raised (DownloadError WebDriverException) ex_world"
    by (simp add: fetch_stage_def KuDownloader_init_def download_all_kus_def ex_defs lookup_def)
  have b: "fetch_stage ex_browser ex_blocked = Ok ex_blocked"
    "fetch_stage ex_browser ex_no_gdb_key = Ok ex_no_gdb_key"
    "fetch_stage ex_browser ex_no_gdb_folder = Ok ex_no_gdb_folder"
    by (simp_all add: fetch_stage_def KuDownloader_init_def download_all_kus_def ex_defs lookup_def)
  have c: "KUParser_init ex_blocked = Inr ex_cfg" "KUParser_init ex_no_gdb_key = Inl KeyError"
    "KUParser_init ex_no_gdb_folder = Inr ex_cfg"
    by (simp_all add: KUParser_init_def ex_defs)
  have d: "extract_zip_files ex_cfg ex_blocked = Raised FileExistsError ex_blocked"
    by (simp add: extract_zip_files_def ex_defs fs_defs)
  have x: "extract_zip_files ex_cfg ex_no_gdb_folder = Ok ?w2"
    by (simp add: extract_zip_files_def ex_defs fs_defs)
  have u: "upload_data_to_gdb ex_sj ex_cfg ?w2 = Raised ExecuteError ?w2"
    by (simp add: upload_data_to_gdb_def workspace_setup_def CreateFileGDB_management_def
        ex_defs fs_defs)
  note h = hard_failure_skips_cleanup
  from h [where br = ex_offline and w = ex_world and sj = ex_sj] a
  have e: "download_and_process_kus ex_offline ex_sj ex_world
       = ex_world\<lparr>stdout := stdout ex_world @ [ErrorOccurred (DownloadError WebDriverException)]\<rparr>"
    by blast
  from h [where br = ex_browser and w = ex_no_gdb_key and sj = ex_sj and wa = ex_no_gdb_key] b c
  have k: "download_and_process_kus ex_browser ex_sj ex_no_gdb_key
       = ex_no_gdb_key\<lparr>stdout := stdout ex_no_gdb_key @ [ErrorOccurred KeyError]\<rparr>"
    by blast
  from h [where br = ex_browser and w = ex_blocked and sj = ex_sj and wa = ex_blocked and kp = ex_cfg] b c d
  have f: "download_and_process_kus ex_browser ex_sj ex_blocked
       = ex_blocked\<lparr>stdout := stdout ex_blocked @ [ErrorOccurred FileExistsError]\<rparr>"
    by blast
  have g: "lookup (disk (download_and_process_kus ex_browser ex_sj ex_blocked)) [''d'', ''100.zip'']
       = Some (File ex_zip100)"
    unfolding f by (simp add: ex_defs lookup_def)
  from h [where br = ex_browser and w = ex_no_gdb_folder and sj = ex_sj and wa = ex_no_gdb_folder
            and kp = ex_cfg and wb = ?w2 and wc = ?w2 and e = ExecuteError] b c x u
  have "download_and_process_kus ex_browser ex_sj ex_no_gdb_folder
       = ?w2\<lparr>stdout := stdout ?w2 @ [ErrorOccurred ExecuteError]\<rparr>"
    by blast
  then have m: "download_and_process_kus ex_browser ex_sj ex_no_gdb_folder
       = ex_no_gdb_folder\<lparr>disk := [([''d''], Dir), ([''d'', ''unpacked''], Dir)],
                           stdout := [ErrorOccurred ExecuteError]\<rparr>"
    by (simp add: ex_defs)
  from a b c d x u e k f g m show ?thesis by blast
qed

section \<open>Join and accumulate\<close>

lemma resolve_KU [simp]: "resolve w ''KU'' = (Workspace (workspace w), ''KU'')"
  by (simp add: resolve_def)

lemma resolve_transient [simp]: "resolve w ''in_memory/spatial_join'' = (InMemory, ''spatial_join'')"
  by (simp add: resolve_def)

lemma SpatialJoin_Ok:
  "SpatialJoin sj w t j out = Ok w1 \<Longrightarrow>
     \<exists>tr. sj (disk w) t j = Some tr \<and> w1 = w\<lparr>datasets := AList.update (resolve w out) tr (datasets w)\<rparr>"
  by (auto simp: SpatialJoin_def split: option.splits if_splits)

lemma fold_into_KU_Ok:
  assumes "fold_into_KU w1 = Ok w2" "map_of (datasets w1) (InMemory, ''spatial_join'') = Some tr"
  shows "workspace w2 = workspace w1 \<and>
     (case map_of (datasets w1) (Workspace (workspace w1), ''KU'') of
        None \<Rightarrow> map_of (datasets w2) = (map_of (datasets w1))((Workspace (workspace w1), ''KU'') \<mapsto> tr)
      | Some t \<Rightarrow> schema tr = schema t \<and> map_of (datasets w2) =
           (map_of (datasets w1))((Workspace (workspace w1), ''KU'') \<mapsto> t\<lparr>rows := rows t @ rows tr\<rparr>))"
  using assms
  by (auto simp: fold_into_KU_def Exists_def Append_management_def CopyFeatures_def update_conv'
      split: option.splits if_splits)

lemma Delete_management_Ok:
  "Delete_management w n = Ok w' \<Longrightarrow>
     workspace w' = workspace w \<and> map_of (datasets w') = (map_of (datasets w))(resolve w n := None)"
  by (auto simp: Delete_management_def delete_conv' split: if_splits)

lemma join_and_fold_Ok:
  assumes "join_and_fold sj cfg k w = Ok w'"
  shows "\<exists>tr. sj (disk w) (target_fc cfg k) (join_fc cfg k) = Some tr \<and>
     (case map_of (datasets w) (Workspace (workspace w), ''KU'') of
        None \<Rightarrow> map_of (datasets w') (Workspace (workspace w), ''KU'') = Some tr
      | Some t \<Rightarrow> schema tr = schema t \<and> map_of (datasets w') (Workspace (workspace w), ''KU'')
           = Some (t\<lparr>rows := rows t @ rows tr\<rparr>))"
proof -
  from assms obtain w1 w2 where
    j: "SpatialJoin sj w (target_fc cfg k) (join_fc cfg k) ''in_memory/spatial_join'' = Ok w1"
    and f: "fold_into_KU w1 = Ok w2"
    and d: "Delete_management w2 ''in_memory/spatial_join'' = Ok w'"
    by (auto simp: join_and_fold_def split: result.splits)
  from SpatialJoin_Ok [OF j] obtain tr where
    tr: "sj (disk w) (target_fc cfg k) (join_fc cfg k) = Some tr"
    and w1: "w1 = w\<lparr>datasets := AList.update (InMemory, ''spatial_join'') tr (datasets w)\<rparr>"
    by auto
  have m1: "map_of (datasets w1) (InMemory, ''spatial_join'') = Some tr"
    and k1: "map_of (datasets w1) (Workspace (workspace w), ''KU'') = map_of (datasets w) (Workspace (workspace w), ''KU'')"
    and ws1: "workspace w1 = workspace w"
    by (simp_all add: w1 update_conv')
  from fold_into_KU_Ok [OF f m1] Delete_management_Ok [OF d] tr k1 ws1
  show ?thesis
    by (auto split: option.splits)
qed


lemma process_single_ku_Ok:
  "process_single_ku sj cfg kn w = Ok w' \<Longrightarrow>
     \<exists>w0. join_and_fold sj cfg (unit_asked kn w) w0 = Ok w' \<and> disk w0 = disk w
        \<and> datasets w0 = datasets w \<and> workspace w0 = workspace w"
  by (auto simp: process_single_ku_def input_def unit_asked_def Let_def split: option.splits list.splits)

text \<open>
  C2. A call of \<^verbatim>\<open>process_single_ku\<close> that returns has joined the unit's two
  layers into a transient feature class \<open>tr\<close>. If the store \<^verbatim>\<open>KU\<close> did not
  exist in the workspace, it is now \<open>tr\<close>; if it existed as \<open>t\<close>, it is now \<open>t\<close>
  with the rows of \<open>tr\<close> after its own, which are unchanged.
\<close>

theorem accumulation_policy:
  assumes "process_single_ku sj cfg ku_number w = Ok w'"
  shows "\<exists>tr. sj (disk w) (target_fc cfg (unit_asked ku_number w)) (join_fc cfg (unit_asked ku_number w)) = Some tr \<and>
     (if Exists w ''KU''
      then \<exists>t. map_of (datasets w) (resolve w ''KU'') = Some t \<and>
             map_of (datasets w') (resolve w ''KU'') = Some (t\<lparr>rows := rows t @ rows tr\<rparr>)
      else map_of (datasets w') (resolve w ''KU'') = Some tr)"
proof -
  from process_single_ku_Ok [OF assms] obtain w0 where
    "join_and_fold sj cfg (unit_asked ku_number w) w0 = Ok w'" "disk w0 = disk w"
    "datasets w0 = datasets w" "workspace w0 = workspace w"
    by blast
  with join_and_fold_Ok [of sj cfg "unit_asked ku_number w" w0 w']
  show ?thesis
    by (auto simp: Exists_def split: option.splits)
qed

theorem accumulation_policy_witness:
  "process_single_ku ex_sj ex_cfg (Some ''100'') ex_filled =
      Ok (ex_filled\<lparr>datasets := [(ex_KU, \<lparr>schema = [''id''], rows = [''old'', ''p100q100'']\<rparr>)]\<rparr>)
   \<and> Exists ex_filled ''KU''
   \<and> map_of (datasets ex_filled) (resolve ex_filled ''KU'') = Some \<lparr>schema = [''id''], rows = [''old'']\<rparr>
   \<and> (\<exists>tr. ex_sj (disk ex_filled) (target_fc ex_cfg ''100'') (join_fc ex_cfg ''100'') = Some tr
        \<and> map_of (datasets (ex_filled\<lparr>datasets := [(ex_KU, \<lparr>schema = [''id''], rows = [''old'', ''p100q100'']\<rparr>)]\<rparr>))
             (resolve ex_filled ''KU'') = Some (\<lparr>schema = [''id''], rows = [''old'']\<rparr>\<lparr>rows := [''old''] @ rows tr\<rparr>))"
proof -
  have run: "process_single_ku ex_sj ex_cfg (Some ''100'') ex_filled =
      Ok (ex_filled\<lparr>datasets := [(ex_KU, \<lparr>schema = [''id''], rows = [''old'', ''p100q100'']\<rparr>)]\<rparr>)"
    by (simp add: ex_defs arcpy_defs fs_defs)
  have ex: "Exists ex_filled ''KU''"
    and old: "map_of (datasets ex_filled) (resolve ex_filled ''KU'') = Some \<lparr>schema = [''id''], rows = [''old'']\<rparr>"
    by (simp_all add: ex_defs Exists_def)
  from accumulation_policy [OF run] ex old run show ?thesis
    by (auto simp: unit_asked_def)
qed

lemma join_and_fold_Ok_transient:
  "join_and_fold sj cfg k w = Ok w' \<Longrightarrow> \<not> Exists w' ''in_memory/spatial_join''"
  by (auto simp: join_and_fold_def Delete_management_def Exists_def delete_conv'
      split: result.splits if_splits)

lemma fold_into_KU_Raised: "fold_into_KU w = Raised e w' \<Longrightarrow> w' = w"
  by (auto simp: fold_into_KU_def Append_management_def CopyFeatures_def
      split: option.splits if_splits)

lemma join_and_fold_Raised_transient:
  assumes "join_and_fold sj cfg k w = Raised e w'"
    and "sj (disk w) (target_fc cfg k) (join_fc cfg k) \<noteq> None"
  shows "Exists w' ''in_memory/spatial_join''"
proof (cases "SpatialJoin sj w (target_fc cfg k) (join_fc cfg k) ''in_memory/spatial_join''")
  case (Raised e1 w1)
  with assms show ?thesis
    by (auto simp: join_and_fold_def SpatialJoin_def split: option.splits if_splits)
next
  case (Ok w1)
  from SpatialJoin_Ok [OF Ok] have t: "Exists w1 ''in_memory/spatial_join''"
    by (auto simp: Exists_def update_conv')
  show ?thesis
  proof (cases "fold_into_KU w1")
    case (Raised e2 w2)
    with assms Ok t show ?thesis
      by (auto simp: join_and_fold_def dest: fold_into_KU_Raised)
  next
    case inner: (Ok w2)
    with assms Ok have "Delete_management w2 ''in_memory/spatial_join'' = Raised e w'"
      by (simp add: join_and_fold_def)
    moreover from inner t have "Exists w2 ''in_memory/spatial_join''"
      by (auto simp: fold_into_KU_def Append_management_def CopyFeatures_def Exists_def update_conv'
          split: option.splits if_splits)
    ultimately show ?thesis
      by (auto simp: Delete_management_def split: if_splits)
  qed
qed

text \<open>
  C6, as the code has it. The transient joined feature set is deleted when the fold
  step succeeded. When the join produced it and the call then raises (the append or
  the copy failed), the delete is not reached: the transient is still in the
  \<^verbatim>\<open>in_memory\<close> workspace when the call ends.
\<close>

theorem transient_removed_after_successful_fold:
  "(process_single_ku sj cfg ku_number w = Ok w' \<longrightarrow> \<not> Exists w' ''in_memory/spatial_join'')
   \<and> (process_single_ku sj cfg (Some k) w = Raised e w'
        \<and> sj (disk w) (target_fc cfg k) (join_fc cfg k) \<noteq> None
        \<longrightarrow> Exists w' ''in_memory/spatial_join'')"
proof (intro conjI impI)
  assume "process_single_ku sj cfg ku_number w = Ok w'"
  then obtain w0 where "join_and_fold sj cfg (unit_asked ku_number w) w0 = Ok w'"
    using process_single_ku_Ok by blast
  then show "\<not> Exists w' ''in_memory/spatial_join''"
    by (rule join_and_fold_Ok_transient)
next
  assume "process_single_ku sj cfg (Some k) w = Raised e w'
        \<and> sj (disk w) (target_fc cfg k) (join_fc cfg k) \<noteq> None"
  then show "Exists w' ''in_memory/spatial_join''"
    using join_and_fold_Raised_transient [of sj cfg k w e w']
    by (simp add: process_single_ku_def)
qed

theorem transient_removed_after_successful_fold_witness:
  "process_single_ku ex_sj ex_cfg (Some ''100'') ex_ready =
      Ok (ex_ready\<lparr>datasets := [(ex_KU, \<lparr>schema = [''id''], rows = [''p100q100'']\<rparr>)]\<rparr>)
   \<and> \<not> Exists (ex_ready\<lparr>datasets := [(ex_KU, \<lparr>schema = [''id''], rows = [''p100q100'']\<rparr>)]\<rparr>)
          ''in_memory/spatial_join''
   \<and> is_ok (fold_into_KU ex_ready) = False
   \<and> process_single_ku ex_sj ex_cfg (Some ''100'') ex_mismatch =
      Raised ExecuteError
        (ex_mismatch\<lparr>datasets := datasets ex_mismatch
            @ [((InMemory, ''spatial_join''), \<lparr>schema = [''id''], rows = [''p100q100'']\<rparr>)]\<rparr>)
   \<and> ex_sj (disk ex_mismatch) (target_fc ex_cfg ''100'') (join_fc ex_cfg ''100'')
        = Some \<lparr>schema = [''id''], rows = [''p100q100'']\<rparr>
   \<and> Exists (ex_mismatch\<lparr>datasets := datasets ex_mismatch
            @ [((InMemory, ''spatial_join''), \<lparr>schema = [''id''], rows = [''p100q100'']\<rparr>)]\<rparr>)
        ''in_memory/spatial_join''"
proof -
  have run: "process_single_ku ex_sj ex_cfg (Some ''100'') ex_ready =
      Ok (ex_ready\<lparr>datasets := [(ex_KU, \<lparr>schema = [''id''], rows = [''p100q100'']\<rparr>)]\<rparr>)"
    by (simp add: ex_defs arcpy_defs fs_defs)
  have nf: "is_ok (fold_into_KU ex_ready) = False"
    by (simp add: ex_defs arcpy_defs)
  have bad: "process_single_ku ex_sj ex_cfg (Some ''100'') ex_mismatch =
      Raised ExecuteError
        (ex_mismatch\<lparr>datasets := datasets ex_mismatch
            @ [((InMemory, ''spatial_join''), \<lparr>schema = [''id''], rows = [''p100q100'']\<rparr>)]\<rparr>)"
    by (simp add: ex_defs arcpy_defs fs_defs)
  have sj: "ex_sj (disk ex_mismatch) (target_fc ex_cfg ''100'') (join_fc ex_cfg ''100'')
        = Some \<lparr>schema = [''id''], rows = [''p100q100'']\<rparr>"
    by (simp add: ex_defs arcpy_defs fs_defs)
  from transient_removed_after_successful_fold [of ex_sj ex_cfg "Some ''100''" ex_ready] run
  have a: "\<not> Exists (ex_ready\<lparr>datasets := [(ex_KU, \<lparr>schema = [''id''], rows = [''p100q100'']\<rparr>)]\<rparr>)
          ''in_memory/spatial_join''"
    by simp
  from transient_removed_after_successful_fold
    [where sj = ex_sj and cfg = ex_cfg and k = "''100''" and w = ex_mismatch and e = ExecuteError
       and w' = "ex_mismatch\<lparr>datasets := datasets ex_mismatch
            @ [((InMemory, ''spatial_join''), \<lparr>schema = [''id''], rows = [''p100q100'']\<rparr>)]\<rparr>"]
    bad sj
  have b: "Exists (ex_mismatch\<lparr>datasets := datasets ex_mismatch
            @ [((InMemory, ''spatial_join''), \<lparr>schema = [''id''], rows = [''p100q100'']\<rparr>)]\<rparr>)
        ''in_memory/spatial_join''"
    by simp
  from run nf bad sj a b show ?thesis by blast
qed

text \<open>
  The claim C6 as written fails: a store whose schema differs from the join's makes
  the append raise, and the transient feature class is still there afterwards.
\<close>

theorem transient_survives_failed_append:
  "process_single_ku ex_sj ex_cfg (Some ''100'') ex_mismatch =
      Raised ExecuteError
        (ex_mismatch\<lparr>datasets := datasets ex_mismatch @ [((InMemory, ''spatial_join''), \<lparr>schema = [''id''], rows = [''p100q100'']\<rparr>)]\<rparr>)
   \<and> Exists (state_of (process_single_ku ex_sj ex_cfg (Some ''100'') ex_mismatch)) ''in_memory/spatial_join''"
  by (simp add: ex_defs arcpy_defs fs_defs)

text \<open>
  C3 at the start of a second run. The geodatabase exists, so the setup calls
  \<^verbatim>\<open>Delete_management('KU')\<close>, but before \<^verbatim>\<open>arcpy.env.workspace\<close> is set:
  the name is read against the workspace of the moment. With no workspace the call
  raises and the run stops with the stale store in place; with another workspace that
  has a \<^verbatim>\<open>KU\<close> of its own, that one is deleted and the stale store of the
  geodatabase receives the new rows after its old ones. The spatial reference object
  is built and dropped: no environment setting holds it.
\<close>

theorem stale_store_survives_second_run:
  "upload_data_to_gdb ex_sj ex_cfg ex_second_run = Raised ExecuteError ex_second_run
   \<and> map_of (datasets ex_second_run) (Workspace (Some (gdb_path ex_cfg)), ''KU'')
       = Some \<lparr>schema = [''id''], rows = [''old'']\<rparr>
   \<and> is_ok (upload_data_to_gdb ex_sj ex_cfg ex_other_ws)
   \<and> map_of (datasets (state_of (upload_data_to_gdb ex_sj ex_cfg ex_other_ws)))
        (Workspace (Some (gdb_path ex_cfg)), ''KU'')
       = Some \<lparr>schema = [''id''], rows = [''old'', ''p100q100'']\<rparr>
   \<and> map_of (datasets (state_of (upload_data_to_gdb ex_sj ex_cfg ex_other_ws)))
        (Workspace (Some [''project.gdb'']), ''KU'') = None
   \<and> outputCoordinateSystem (state_of (upload_data_to_gdb ex_sj ex_cfg ex_other_ws)) = None"
  by (simp add: upload_data_to_gdb_def workspace_setup_def SpatialReference_def Let_def
      ex_defs arcpy_defs fs_defs)

section \<open>Selective extraction\<close>

lemma is_ok_eq: "is_ok r \<Longrightarrow> r = Ok (state_of r)"
  by (cases r) simp_all

lemma lookup_append:
  "lookup (fs @ xs) q = (case lookup fs q of Some n \<Rightarrow> Some n | None \<Rightarrow> lookup xs q)"
  by (auto simp: lookup_def map_add_def split: option.splits)

lemma lookup_dirs: "lookup (dirs ds) q = (if q = [] \<or> q \<in> set ds then Some Dir else None)"
  by (induction ds) (auto simp: dirs_def lookup_def)

lemma mkdir_Ok: "mkdir fs p = Ok fs' \<Longrightarrow> fs' = fs @ dirs [p] \<and> lookup fs p = None \<and> lookup fs (butlast p) = Some Dir"
  by (auto simp: mkdir_def dirs_def split: if_splits option.splits node.splits)

lemma mkdir_shape: "\<exists>ds. state_of (mkdir fs p) = fs @ dirs ds \<and> (\<forall>q\<in>set ds. q = p \<and> lookup fs q = None)"
proof (cases "mkdir fs p")
  case (Ok fs')
  then show ?thesis using mkdir_Ok [OF Ok] by (intro exI [of _ "[p]"]) simp
next
  case (Raised e fs')
  then show ?thesis using mkdir_Raised [OF Raised] by (intro exI [of _ "[]"]) (simp add: dirs_def)
qed

lemma dirs_append: "dirs (xs @ ys) = dirs xs @ dirs ys"
  by (simp add: dirs_def)

lemma makedirs_shape:
  "\<exists>ds. state_of (makedirs fs p) = fs @ dirs ds \<and> (\<forall>q\<in>set ds. prefix q p \<and> lookup fs q = None)"
proof (induction fs p rule: makedirs.induct)
  case (1 fs p)
  show ?case
  proof (cases "p \<noteq> [] \<and> butlast p \<noteq> [] \<and> lookup fs (butlast p) = None")
    case False
    then have "makedirs fs p = mkdir fs p" by (subst makedirs.simps) auto
    with mkdir_shape [of fs p] show ?thesis by auto
  next
    case True
    from "1.IH" [OF True] obtain ds where
      ds: "state_of (makedirs fs (butlast p)) = fs @ dirs ds" "\<forall>q\<in>set ds. prefix q (butlast p) \<and> lookup fs q = None"
      by blast
    have pre: "\<forall>q\<in>set ds. prefix q p \<and> lookup fs q = None"
      using ds(2) True by (metis append_butlast_last_id prefix_order.dual_order.trans prefixI)
    show ?thesis
    proof (cases "makedirs fs (butlast p)")
      case (Raised e fs')
      with True have "makedirs fs p = Raised e fs'" by (subst makedirs.simps) simp
      with ds(1) Raised pre show ?thesis by auto
    next
      case (Ok fs')
      with True have eq: "makedirs fs p = mkdir fs' p" by (subst makedirs.simps) simp
      from Ok ds(1) have fs': "fs' = fs @ dirs ds" by simp
      from mkdir_shape [of fs' p] obtain es where
        es: "state_of (mkdir fs' p) = fs' @ dirs es" "\<forall>q\<in>set es. q = p \<and> lookup fs' q = None"
        by blast
      have "\<forall>q\<in>set es. prefix q p \<and> lookup fs q = None"
        using es(2) fs' by (auto simp: lookup_append split: option.splits)
      with pre es(1) fs' eq show ?thesis
        by (intro exI [of _ "ds @ es"]) (auto simp: dirs_append)
    qed
  qed
qed

lemma makedirs_Ok_Dir: "makedirs fs p = Ok fs' \<Longrightarrow> lookup fs' p = Some Dir"
proof (induction fs p arbitrary: fs' rule: makedirs.induct)
  case (1 fs p)
  from "1.prems" obtain fs1 where "mkdir fs1 p = Ok fs'"
    by (subst (asm) makedirs.simps) (auto split: if_splits result.splits)
  from mkdir_Ok [OF this] show ?case
    by (auto simp: lookup_append lookup_dirs)
qed

lemma write_file_Ok:
  "write_file fs p b = Ok fs' \<Longrightarrow> fs' = AList.update p (File (Raw b)) fs \<and> lookup fs p \<noteq> Some Dir \<and> p \<noteq> []"
  by (auto simp: write_file_def split: option.splits node.splits)

lemma write_file_Raised:
  "write_file fs p b = Raised e fs' \<Longrightarrow>
     fs' = fs \<and> (lookup fs p = Some Dir \<or> (lookup fs p = None \<and> lookup fs (butlast p) \<noteq> Some Dir))"
  by (auto simp: write_file_def split: option.splits node.splits)

lemma write_file_cases:
  "(write_file fs p b = Ok (AList.update p (File (Raw b)) fs) \<and> lookup fs p \<noteq> Some Dir \<and> p \<noteq> [])
   \<or> (\<exists>e. write_file fs p b = Raised e fs)"
  by (auto simp: write_file_def split: option.splits node.splits)

text \<open>
  One extraction step: some new directories, then possibly the target file, written in
  place when it was there.
\<close>

lemma extract_member_shape:
  assumes "\<not> is_dir m"
  shows "\<exists>ds. (\<forall>q\<in>set ds. strict_prefix q (U @ arcname m) \<and> lookup fs q = None) \<and>
     (state_of (extract_member fs U m) = fs @ dirs ds \<or>
      (\<exists>b. (payload m = Data b \<or> payload m = Damaged b) \<and> lookup (fs @ dirs ds) (U @ arcname m) \<noteq> Some Dir
          \<and> U @ arcname m \<noteq> []
          \<and> state_of (extract_member fs U m) = AList.update (U @ arcname m) (File (Raw b)) (fs @ dirs ds)))"
proof -
  define t where "t = U @ arcname m"
  define r1 where "r1 = ensure_upperdirs fs (butlast t)"
  have "\<exists>ds. state_of r1 = fs @ dirs ds \<and> (\<forall>q\<in>set ds. prefix q (butlast t) \<and> lookup fs q = None)"
    using makedirs_shape [of fs "butlast t"]
    by (auto simp: r1_def ensure_upperdirs_def dirs_def intro: exI [of _ "[]"])
  then obtain ds where ds: "state_of r1 = fs @ dirs ds" "\<forall>q\<in>set ds. prefix q (butlast t) \<and> lookup fs q = None"
    by blast
  have sp: "\<forall>q\<in>set ds. strict_prefix q t \<and> lookup fs q = None"
  proof
    fix q assume q: "q \<in> set ds"
    with ds(2) have a: "prefix q (butlast t)" "lookup fs q = None" by auto
    then have "q \<noteq> []" by auto
    with a(1) have "t \<noteq> []" by auto
    then have "strict_prefix (butlast t) t"
      by (metis append_butlast_last_id not_Cons_self2 prefixI self_append_conv strict_prefixI)
    with a show "strict_prefix q t \<and> lookup fs q = None"
      by (auto intro: prefix_order.le_less_trans)
  qed
  have em: "extract_member fs U m =
      (case r1 of Raised e fs1 \<Rightarrow> Raised e fs1 | Ok fs1 \<Rightarrow> copy_member fs1 t m)"
    unfolding extract_member_def Let_def t_def r1_def
    using assms by (auto split: result.splits)
  have "state_of (extract_member fs U m) = fs @ dirs ds \<or>
      (\<exists>b. (payload m = Data b \<or> payload m = Damaged b) \<and> lookup (fs @ dirs ds) t \<noteq> Some Dir \<and> t \<noteq> []
          \<and> state_of (extract_member fs U m) = AList.update t (File (Raw b)) (fs @ dirs ds))"
  proof (cases r1)
    case (Raised e fs1)
    with ds(1) show ?thesis by (simp add: em)
  next
    case (Ok fs1)
    with ds(1) have fs1: "fs1 = fs @ dirs ds" by simp
    show ?thesis
    proof (cases "payload m")
      case Unreadable
      with Ok fs1 show ?thesis by (simp add: em copy_member_def)
    next
      case (Data b)
      with Ok fs1 write_file_cases [of fs1 t b] show ?thesis by (auto simp: em copy_member_def)
    next
      case (Damaged b)
      with Ok fs1 write_file_cases [of fs1 t b] show ?thesis by (auto simp: em copy_member_def)
    qed
  qed
  with sp show ?thesis
    unfolding t_def by blast
qed


lemma extract_member_lookup:
  assumes "\<not> is_dir m"
  shows "lookup (state_of (extract_member fs U m)) q = lookup fs q
     \<or> (lookup fs q = None \<and> strict_prefix q (U @ arcname m)
          \<and> lookup (state_of (extract_member fs U m)) q = Some Dir)
     \<or> (q = U @ arcname m \<and> lookup fs q \<noteq> Some Dir
          \<and> (\<exists>b. (payload m = Data b \<or> payload m = Damaged b)
                \<and> lookup (state_of (extract_member fs U m)) q = Some (File (Raw b))))"
proof -
  from extract_member_shape [OF assms, of U fs] obtain ds where
    ds: "\<forall>q\<in>set ds. strict_prefix q (U @ arcname m) \<and> lookup fs q = None"
    and st: "state_of (extract_member fs U m) = fs @ dirs ds \<or>
      (\<exists>b. (payload m = Data b \<or> payload m = Damaged b) \<and> lookup (fs @ dirs ds) (U @ arcname m) \<noteq> Some Dir
          \<and> U @ arcname m \<noteq> []
          \<and> state_of (extract_member fs U m) = AList.update (U @ arcname m) (File (Raw b)) (fs @ dirs ds))"
    by blast
  have base: "lookup (fs @ dirs ds) q = lookup fs q
     \<or> (lookup fs q = None \<and> strict_prefix q (U @ arcname m) \<and> lookup (fs @ dirs ds) q = Some Dir)"
    using ds by (auto simp: lookup_append lookup_dirs split: option.splits)
  from st show ?thesis
  proof
    assume "state_of (extract_member fs U m) = fs @ dirs ds"
    with base show ?thesis by auto
  next
    assume "\<exists>b. (payload m = Data b \<or> payload m = Damaged b) \<and> lookup (fs @ dirs ds) (U @ arcname m) \<noteq> Some Dir
          \<and> U @ arcname m \<noteq> []
          \<and> state_of (extract_member fs U m) = AList.update (U @ arcname m) (File (Raw b)) (fs @ dirs ds)"
    then obtain b where b: "payload m = Data b \<or> payload m = Damaged b"
      and nd: "lookup (fs @ dirs ds) (U @ arcname m) \<noteq> Some Dir" "U @ arcname m \<noteq> []"
      and eq: "state_of (extract_member fs U m) = AList.update (U @ arcname m) (File (Raw b)) (fs @ dirs ds)"
      by blast
    show ?thesis
    proof (cases "q = U @ arcname m")
      case True
      with nd have "lookup fs q \<noteq> Some Dir"
        by (auto simp: lookup_append split: option.splits)
      with True b nd show ?thesis
        by (auto simp: eq lookup_update)
    next
      case False
      with base show ?thesis
        by (auto simp: eq lookup_update)
    qed
  qed
qed

lemma extract_member_Ok:
  assumes "\<not> is_dir m" "extract_member fs U m = Ok fs'"
  shows "\<exists>b. payload m = Data b \<and> lookup fs' (U @ arcname m) = Some (File (Raw b))"
  using assms
  by (auto simp: extract_member_def copy_member_def Let_def lookup_update
      split: result.splits payload.splits if_splits dest!: write_file_Ok)

lemma extractall_lookup:
  assumes "\<forall>m\<in>set ms. \<not> is_dir m"
  shows "lookup (state_of (extractall fs U ms)) q = lookup fs q
     \<or> (lookup fs q = None \<and> lookup (state_of (extractall fs U ms)) q = Some Dir
          \<and> (\<exists>m\<in>set ms. strict_prefix q (U @ arcname m)))
     \<or> (lookup fs q \<noteq> Some Dir
          \<and> (\<exists>m\<in>set ms. q = U @ arcname m
                \<and> (\<exists>b. (payload m = Data b \<or> payload m = Damaged b)
                      \<and> lookup (state_of (extractall fs U ms)) q = Some (File (Raw b)))))"
  using assms
proof (induction ms arbitrary: fs)
  case Nil
  then show ?case by simp
next
  case (Cons m ms)
  then have nd: "\<not> is_dir m" and rest: "\<forall>m\<in>set ms. \<not> is_dir m" by auto
  note one = extract_member_lookup [OF nd, of fs U q]
  show ?case
  proof (cases "extract_member fs U m")
    case (Raised e fs1)
    with one show ?thesis by auto
  next
    case (Ok fs1)
    from Cons.IH [OF rest, of fs1] one Ok show ?thesis
      by (simp del: strict_prefix_simps) (elim disjE; force)
  qed
qed

lemma extractall_Ok_lookup:
  assumes "\<forall>m\<in>set ms. \<not> is_dir m" "extractall fs U ms = Ok fs'"
  shows "\<forall>e\<in>set ms. \<exists>e'\<in>set ms. arcname e' = arcname e
     \<and> (\<exists>b. payload e' = Data b \<and> lookup fs' (U @ arcname e) = Some (File (Raw b)))"
  using assms
proof (induction ms arbitrary: fs)
  case Nil
  then show ?case by simp
next
  case (Cons m ms)
  then have nd: "\<not> is_dir m" and rest: "\<forall>m\<in>set ms. \<not> is_dir m" by auto
  from Cons.prems(2) obtain fs1 where
    one: "extract_member fs U m = Ok fs1" and all: "extractall fs1 U ms = Ok fs'"
    by (auto split: result.splits)
  from extract_member_Ok [OF nd one] obtain b where
    b: "payload m = Data b" "lookup fs1 (U @ arcname m) = Some (File (Raw b))"
    by blast
  note ih = Cons.IH [OF rest all]
  have "\<exists>e'\<in>set (m # ms). arcname e' = arcname m
     \<and> (\<exists>b. payload e' = Data b \<and> lookup fs' (U @ arcname m) = Some (File (Raw b)))"
  proof -
    from extractall_lookup [OF rest, of fs1 U "U @ arcname m"] all b(2)
    consider "lookup fs' (U @ arcname m) = Some (File (Raw b))"
      | m' b' where "m' \<in> set ms" "U @ arcname m = U @ arcname m'"
          "lookup fs' (U @ arcname m) = Some (File (Raw b'))"
      by auto
    then show ?thesis
    proof cases
      case 1
      with b(1) show ?thesis by auto
    next
      case 2
      from ih 2(1) obtain e' where "e' \<in> set ms" "arcname e' = arcname m'"
        "\<exists>b. payload e' = Data b \<and> lookup fs' (U @ arcname m') = Some (File (Raw b))"
        by blast
      with 2(2) show ?thesis by auto
    qed
  qed
  with ih show ?case by auto
qed

lemma split_on_nonempty [simp]: "split_on c s \<noteq> []"
  by (induction s) (auto split: list.splits)

lemma split_on_snoc: "split_on c (xs @ [c]) = split_on c xs @ [[]]"
  by (induction xs) (auto split: list.splits)

lemma last_split_on_slash: "last (split_on c (xs @ [c])) = []"
  by (simp add: split_on_snoc)

lemma is_dir_basename: "is_dir m \<Longrightarrow> last (split_on CHR ''/'' (filename m)) = []"
  unfolding is_dir_def
  by (metis append_butlast_last_id last_split_on_slash)

lemma to_extract_names: "x \<in> set to_extract \<Longrightarrow> x \<noteq> [] \<and> x \<noteq> ''.'' \<and> x \<noteq> ''..''"
  by (auto simp: to_extract_def)


lemma selected_not_dir: "selected m \<Longrightarrow> \<not> is_dir m"
  using is_dir_basename to_extract_names by (fastforce simp: selected_def)

lemma selected_arcname: "selected m \<Longrightarrow> arcname m \<noteq> [] \<and> last (arcname m) = last (split_on CHR ''/'' (filename m))"
proof -
  assume s: "selected m"
  define xs where "xs = split_on CHR ''/'' (filename m)"
  have ne: "xs \<noteq> []" by (simp add: xs_def)
  from s to_extract_names have ok: "last xs \<noteq> [] \<and> last xs \<noteq> ''.'' \<and> last xs \<noteq> ''..''"
    by (auto simp: selected_def xs_def)
  from ne obtain ys y where xs: "xs = ys @ [y]"
    by (metis append_butlast_last_id)
  with ok show ?thesis
    by (simp add: arcname_def xs_def [symmetric])
qed

lemma extractall_Ok_Data:
  assumes "\<forall>m\<in>set ms. \<not> is_dir m" "extractall fs U ms = Ok fs'"
  shows "\<forall>m\<in>set ms. \<exists>b. payload m = Data b"
  using assms
proof (induction ms arbitrary: fs)
  case Nil
  then show ?case by simp
next
  case (Cons m ms)
  then show ?case
    by (auto split: result.splits dest: extract_member_Ok)
qed

lemma extract_zip_file_Ok:
  assumes "extract_zip_file cfg fs zip_file to_extract = Ok fs'"
  shows "\<exists>es. lookup fs zip_file = Some (File (Zip es))
     \<and> extractall fs (unpacked_path cfg) (filter selected es) = Ok fs'"
proof -
  have sel: "(\<lambda>x. last (split_on CHR ''/'' (filename x)) \<in> set to_extract) = selected"
    by (auto simp: selected_def)
  from assms show ?thesis
    by (auto simp: extract_zip_file_def ZipFile_def sel
        split: option.splits node.splits fcontent.splits sum.splits)
qed

text \<open>
  C1, as the code has it. When \<^verbatim>\<open>extract_zip_file\<close> returns, the archive was a
  readable zip file and every entry whose base name is in the manifest is a file at
  the unpacked directory followed by the entry's own path inside the archive (the base
  name last). The bytes are those of the last selected entry with that path. The
  name of the archive plays no part in the destination.
\<close>

theorem selected_entries_keep_their_internal_path:
  assumes "extract_zip_file cfg fs zip_file to_extract = Ok fs'"
  shows "\<exists>es. lookup fs zip_file = Some (File (Zip es)) \<and>
    (\<forall>e\<in>set es. selected e \<longrightarrow>
        last (arcname e) = last (split_on CHR ''/'' (filename e)) \<and>
        (\<exists>e'\<in>set es. selected e' \<and> arcname e' = arcname e \<and>
           (\<exists>b. payload e' = Data b
              \<and> lookup fs' (unpacked_path cfg @ arcname e) = Some (File (Raw b)))))"
proof -
  from extract_zip_file_Ok [OF assms] obtain es where
    es: "lookup fs zip_file = Some (File (Zip es))"
    and run: "extractall fs (unpacked_path cfg) (filter selected es) = Ok fs'"
    by blast
  have nd: "\<forall>m\<in>set (filter selected es). \<not> is_dir m"
    by (simp add: selected_not_dir)
  from extractall_Ok_lookup [OF nd run] es show ?thesis
    by (fastforce simp: selected_arcname)
qed

theorem selected_entries_keep_their_internal_path_witness:
  "extract_zip_file ex_cfg (disk ex_flat) [''d'', ''200.zip''] to_extract
     = Ok (state_of (extract_zip_file ex_cfg (disk ex_flat) [''d'', ''200.zip''] to_extract))
   \<and> (\<exists>es. lookup (disk ex_flat) [''d'', ''200.zip''] = Some (File (Zip es)) \<and>
    (\<forall>e\<in>set es. selected e \<longrightarrow>
        last (arcname e) = last (split_on CHR ''/'' (filename e)) \<and>
        (\<exists>e'\<in>set es. selected e' \<and> arcname e' = arcname e \<and>
           (\<exists>b. payload e' = Data b
              \<and> lookup (state_of (extract_zip_file ex_cfg (disk ex_flat) [''d'', ''200.zip''] to_extract))
                   (unpacked_path ex_cfg @ arcname e) = Some (File (Raw b))))))"
proof -
  have "is_ok (extract_zip_file ex_cfg (disk ex_flat) [''d'', ''200.zip''] to_extract)"
    by (simp add: ex_defs zip_defs fs_defs makedirs.simps)
  then have run: "extract_zip_file ex_cfg (disk ex_flat) [''d'', ''200.zip''] to_extract
     = Ok (state_of (extract_zip_file ex_cfg (disk ex_flat) [''d'', ''200.zip''] to_extract))"
    by (rule is_ok_eq)
  from selected_entries_keep_their_internal_path [OF run] run show ?thesis
    by blast
qed

text \<open>
  The claim C1 as written fails: the entries of \<^verbatim>\<open>200.zip\<close> are extracted, and
  there is no directory \<^verbatim>\<open>unpacked/200\<close> afterwards.
\<close>

theorem archive_name_is_not_the_unit_directory:
  "is_ok (extract_zip_file ex_cfg (disk ex_flat) [''d'', ''200.zip''] to_extract)
   \<and> lookup (state_of (extract_zip_file ex_cfg (disk ex_flat) [''d'', ''200.zip''] to_extract))
        [''d'', ''unpacked'', ''PARCELY_KN_P.shp''] = Some (File (Raw ''p200''))
   \<and> lookup (state_of (extract_zip_file ex_cfg (disk ex_flat) [''d'', ''200.zip''] to_extract))
        [''d'', ''unpacked'', ''KU200'', ''data'', ''PARCELY_KN_DEF.shp''] = Some (File (Raw ''q200''))
   \<and> lookup (state_of (extract_zip_file ex_cfg (disk ex_flat) [''d'', ''200.zip''] to_extract))
        [''d'', ''unpacked'', ''200''] = None"
  by (simp add: ex_defs zip_defs fs_defs makedirs.simps)

text \<open>
  C5, as the code has it. After a successful \<^verbatim>\<open>extract_zip_file\<close>, every
  entry of the archive with a manifest base name is a file in the unpacked tree; every
  path that reads differently than before is either such a file (its last component is
  one of the ten names) or a new directory above one. Nothing checks that all ten names,
  or all companions of a layer, were in the archive.
\<close>

theorem extraction_writes_listed_entries_only:
  assumes "extract_zip_file cfg fs zip_file to_extract = Ok fs'"
  shows "\<exists>es. lookup fs zip_file = Some (File (Zip es)) \<and>
    (\<forall>e\<in>set es. selected e \<longrightarrow>
       (\<exists>b. lookup fs' (unpacked_path cfg @ arcname e) = Some (File (Raw b)))) \<and>
    (\<forall>q. lookup fs' q = lookup fs q
       \<or> (lookup fs q = None \<and> lookup fs' q = Some Dir
            \<and> (\<exists>e\<in>set es. selected e \<and> strict_prefix q (unpacked_path cfg @ arcname e)))
       \<or> (last q \<in> set to_extract
            \<and> (\<exists>e\<in>set es. selected e \<and> q = unpacked_path cfg @ arcname e
                  \<and> (\<exists>b. payload e = Data b \<and> lookup fs' q = Some (File (Raw b))))))"
proof -
  from extract_zip_file_Ok [OF assms] obtain es where
    es: "lookup fs zip_file = Some (File (Zip es))"
    and run: "extractall fs (unpacked_path cfg) (filter selected es) = Ok fs'"
    by blast
  have nd: "\<forall>m\<in>set (filter selected es). \<not> is_dir m"
    by (simp add: selected_not_dir)
  have a: "\<forall>e\<in>set es. selected e \<longrightarrow>
       (\<exists>b. lookup fs' (unpacked_path cfg @ arcname e) = Some (File (Raw b)))"
    using extractall_Ok_lookup [OF nd run] by fastforce
  have b: "lookup fs' q = lookup fs q
       \<or> (lookup fs q = None \<and> lookup fs' q = Some Dir
            \<and> (\<exists>e\<in>set es. selected e \<and> strict_prefix q (unpacked_path cfg @ arcname e)))
       \<or> (last q \<in> set to_extract
            \<and> (\<exists>e\<in>set es. selected e \<and> q = unpacked_path cfg @ arcname e
                  \<and> (\<exists>b. payload e = Data b \<and> lookup fs' q = Some (File (Raw b)))))" for q
  proof -
    from extractall_lookup [OF nd, of fs "unpacked_path cfg" q] run
    consider "lookup fs' q = lookup fs q"
      | "lookup fs q = None \<and> lookup fs' q = Some Dir
            \<and> (\<exists>e\<in>set es. selected e \<and> strict_prefix q (unpacked_path cfg @ arcname e))"
      | e b where "e \<in> set es" "selected e" "q = unpacked_path cfg @ arcname e"
          "payload e = Data b \<or> payload e = Damaged b" "lookup fs' q = Some (File (Raw b))"
      by (simp del: strict_prefix_simps) blast
    then show ?thesis
    proof cases
      case 3
      from extractall_Ok_Data [OF nd run] 3(1,2) obtain b' where b': "payload e = Data b'"
        by auto
      with 3(4) have "payload e = Data b" by auto
      moreover from 3(2,3) have "last q \<in> set to_extract"
        using selected_arcname [of e] by (simp add: selected_def)
      ultimately show ?thesis
        using 3 by auto
    qed auto
  qed
  from es a b show ?thesis by blast
qed

theorem extraction_writes_listed_entries_only_witness:
  "extract_zip_file ex_cfg (disk ex_flat) [''d'', ''200.zip''] to_extract
     = Ok (state_of (extract_zip_file ex_cfg (disk ex_flat) [''d'', ''200.zip''] to_extract))
   \<and> lookup (state_of (extract_zip_file ex_cfg (disk ex_flat) [''d'', ''200.zip''] to_extract))
        [''d'', ''unpacked'', ''KU200''] = Some Dir
   \<and> (\<exists>es. lookup (disk ex_flat) [''d'', ''200.zip''] = Some (File (Zip es)) \<and>
        (\<exists>e\<in>set es. selected e \<and>
           strict_prefix [''d'', ''unpacked'', ''KU200''] (unpacked_path ex_cfg @ arcname e)))"
proof -
  let ?r = "extract_zip_file ex_cfg (disk ex_flat) [''d'', ''200.zip''] to_extract"
  have "is_ok ?r"
    by (simp add: ex_defs zip_defs fs_defs makedirs.simps)
  then have run: "?r = Ok (state_of ?r)"
    by (rule is_ok_eq)
  have new: "lookup (disk ex_flat) [''d'', ''unpacked'', ''KU200''] = None"
    "lookup (state_of ?r) [''d'', ''unpacked'', ''KU200''] = Some Dir"
    "last [''d'', ''unpacked'', ''KU200''] \<notin> set to_extract"
    by (simp_all add: ex_defs zip_defs fs_defs makedirs.simps)
  from extraction_writes_listed_entries_only [OF run] obtain es where
    es: "lookup (disk ex_flat) [''d'', ''200.zip''] = Some (File (Zip es))"
    and fr: "\<forall>q. lookup (state_of ?r) q = lookup (disk ex_flat) q
       \<or> (lookup (disk ex_flat) q = None \<and> lookup (state_of ?r) q = Some Dir
            \<and> (\<exists>e\<in>set es. selected e \<and> strict_prefix q (unpacked_path ex_cfg @ arcname e)))
       \<or> (last q \<in> set to_extract
            \<and> (\<exists>e\<in>set es. selected e \<and> q = unpacked_path ex_cfg @ arcname e
                  \<and> (\<exists>b. payload e = Data b \<and> lookup (state_of ?r) q = Some (File (Raw b)))))"
    by blast
  from fr [rule_format, of "[''d'', ''unpacked'', ''KU200'']"] new
  have "\<exists>e\<in>set es. selected e \<and>
           strict_prefix [''d'', ''unpacked'', ''KU200''] (unpacked_path ex_cfg @ arcname e)"
    by (simp del: strict_prefix_simps)
  with run new es show ?thesis by blast
qed

text \<open>
  The claim C5 as written fails: \<^verbatim>\<open>300.zip\<close> holds two companions of one layer;
  the extraction succeeds without a warning and the unit's directory holds these two.
\<close>

theorem partial_layer_is_extracted_silently:
  "is_ok (extract_zip_files ex_cfg ex_partial)
   \<and> warnings (state_of (extract_zip_files ex_cfg ex_partial)) = []
   \<and> glob (disk (state_of (extract_zip_files ex_cfg ex_partial))) [''d'', ''unpacked'', ''300''] []
       = [[''d'', ''unpacked'', ''300'', ''PARCELY_KN_P.shp''],
          [''d'', ''unpacked'', ''300'', ''PARCELY_KN_P.dbf'']]
   \<and> lookup (disk (state_of (extract_zip_files ex_cfg ex_partial)))
        [''d'', ''unpacked'', ''300'', ''PARCELY_KN_P.shx''] = None"
  by (simp add: ex_defs zip_defs fs_defs makedirs.simps)

section \<open>Extracting a second time\<close>

lemma wf_keys: "wf_fs fs \<Longrightarrow> lookup fs p = Some n \<Longrightarrow> p \<noteq> [] \<Longrightarrow> lookup fs (butlast p) = Some Dir"
  using lookup_keys [of fs p n] by (auto simp: wf_fs_def list_all_iff)

lemma wf_anc:
  "wf_fs fs \<Longrightarrow> lookup fs p = Some n \<Longrightarrow> strict_prefix q p \<Longrightarrow> lookup fs q = Some Dir"
proof (induction p arbitrary: n rule: rev_induct)
  case Nil
  then show ?case by simp
next
  case (snoc x xs)
  from snoc.prems(1,2) have par: "lookup fs xs = Some Dir"
    using wf_keys [of fs "xs @ [x]" n] by simp
  from snoc.prems(3) have "prefix q xs" by (auto simp: strict_prefix_def)
  then consider "q = xs" | "strict_prefix q xs" by (auto simp: strict_prefix_def)
  then show ?case
    using par snoc.IH [OF snoc.prems(1) par] by cases auto
qed

lemma wf_append_dir:
  assumes "wf_fs fs" "lookup fs p = None" "lookup fs (butlast p) = Some Dir"
  shows "wf_fs (fs @ [(p, Dir)])"
proof -
  from assms(2) have ne: "p \<noteq> []" by auto
  with assms(2) have nk: "p \<notin> fst ` set fs"
    by (auto simp: lookup_def map_of_eq_None_iff)
  have par: "lookup (fs @ [(p, Dir)]) (butlast q) = Some Dir" if "lookup fs (butlast q) = Some Dir" for q
    using that by (simp add: lookup_append)
  from assms(1) nk ne par assms(3) show ?thesis
    by (auto simp: wf_fs_def list_all_iff)
qed

lemma wf_mkdir: "wf_fs fs \<Longrightarrow> wf_fs (state_of (mkdir fs p))"
  by (cases "mkdir fs p") (auto dest!: mkdir_Ok mkdir_Raised simp: dirs_def intro: wf_append_dir)

lemma wf_makedirs: "wf_fs fs \<Longrightarrow> wf_fs (state_of (makedirs fs p))"
proof (induction fs p rule: makedirs.induct)
  case (1 fs p)
  show ?case
  proof (cases "p \<noteq> [] \<and> butlast p \<noteq> [] \<and> lookup fs (butlast p) = None")
    case False
    then have "makedirs fs p = mkdir fs p" by (subst makedirs.simps) auto
    with "1.prems" show ?thesis by (simp add: wf_mkdir)
  next
    case True
    note ih = "1.IH" [OF True "1.prems"]
    show ?thesis
    proof (cases "makedirs fs (butlast p)")
      case (Raised e fs')
      with True have "makedirs fs p = Raised e fs'" by (subst makedirs.simps) simp
      with ih Raised show ?thesis by simp
    next
      case (Ok fs')
      with True have "makedirs fs p = mkdir fs' p" by (subst makedirs.simps) simp
      with ih Ok show ?thesis by (simp add: wf_mkdir)
    qed
  qed
qed

lemma wf_update_file:
  assumes "wf_fs fs" "p \<noteq> []" "lookup fs p \<noteq> Some Dir"
    "lookup fs p \<noteq> None \<or> lookup fs (butlast p) = Some Dir"
  shows "wf_fs (AList.update p (File c) fs)"
proof -
  have no_child: "butlast q \<noteq> p" if "q \<in> fst ` set fs" for q
  proof
    assume "butlast q = p"
    moreover from that assms(1) have "q \<noteq> [] \<and> lookup fs (butlast q) = Some Dir"
      by (auto simp: wf_fs_def list_all_iff)
    ultimately show False using assms(3) by simp
  qed
  have self: "lookup fs (butlast p) = Some Dir"
  proof (cases "lookup fs p")
    case None
    with assms(4) show ?thesis by simp
  next
    case (Some n)
    with assms(1,2) show ?thesis by (auto intro: wf_keys)
  qed
  have "butlast p \<noteq> p" using assms(2) by (metis append_butlast_last_id not_Cons_self2 self_append_conv)
  with self have self': "lookup (AList.update p (File c) fs) (butlast p) = Some Dir"
    by (simp add: lookup_update)
  have old: "lookup (AList.update p (File c) fs) (butlast q) = Some Dir"
    if "q \<in> fst ` set fs" for q
    using that no_child [OF that] assms(1)
    by (auto simp: lookup_update wf_fs_def list_all_iff)
  from assms(1) have d: "distinct (map fst (AList.update p (File c) fs))"
    by (simp add: wf_fs_def distinct_update)
  have ne: "q \<noteq> []" if "q \<in> fst ` set (AList.update p (File c) fs)" for q
    using that assms(1,2) by (auto simp: dom_update wf_fs_def list_all_iff)
  show ?thesis
    unfolding wf_fs_def list_all_iff
    using d ne old self' by (auto simp: dom_update)
qed

lemma wf_write_file: "wf_fs fs \<Longrightarrow> wf_fs (state_of (write_file fs p b))"
  by (auto simp: write_file_def intro!: wf_update_file split: option.splits node.splits)

lemma wf_copy_member: "wf_fs fs \<Longrightarrow> wf_fs (state_of (copy_member fs t m))"
proof (cases "payload m")
  case (Data b)
  assume "wf_fs fs"
  with Data wf_write_file [of fs t b] show ?thesis by (simp add: copy_member_def)
next
  case Unreadable
  assume "wf_fs fs"
  with Unreadable show ?thesis by (simp add: copy_member_def)
next
  case (Damaged b)
  assume "wf_fs fs"
  with Damaged wf_write_file [of fs t b] show ?thesis
    by (cases "write_file fs t b") (simp_all add: copy_member_def)
qed

lemma wf_extract_member:
  assumes "wf_fs fs"
  shows "wf_fs (state_of (extract_member fs U m))"
proof -
  have "wf_fs (state_of (ensure_upperdirs fs (butlast (U @ arcname m))))"
    using assms by (simp add: ensure_upperdirs_def wf_makedirs)
  then show ?thesis
    using wf_copy_member wf_mkdir
    by (auto simp: extract_member_def Let_def split: result.splits)
qed

lemma wf_extractall: "wf_fs fs \<Longrightarrow> wf_fs (state_of (extractall fs U ms))"
proof (induction ms arbitrary: fs)
  case Nil
  then show ?case by simp
next
  case (Cons m ms)
  from wf_extract_member [OF Cons.prems, of U m] Cons.IH show ?case
    by (cases "extract_member fs U m") auto
qed

lemma wf_extract_zip_file: "wf_fs fs \<Longrightarrow> wf_fs (state_of (extract_zip_file cfg fs z M))"
  by (auto simp: extract_zip_file_def wf_extractall split: sum.splits)

lemma wf_extract_loop: "wf_fs (disk w) \<Longrightarrow> wf_fs (disk (extract_loop cfg zs w))"
proof (induction zs arbitrary: w)
  case Nil
  then show ?case by simp
next
  case (Cons z zs)
  from wf_extract_zip_file [OF Cons.prems, of cfg z to_extract] show ?case
    by (cases "extract_zip_file cfg (disk w) z to_extract") (auto intro: Cons.IH)
qed


lemma butlast_strict: "p \<noteq> [] \<Longrightarrow> strict_prefix (butlast p) p"
  by (metis append_butlast_last_id not_Cons_self2 prefixI self_append_conv strict_prefixI)

lemma strict_prefix_butlast: "strict_prefix q p \<Longrightarrow> prefix q (butlast p)"
  by (metis append_butlast_last_id butlast.simps(1) prefix_snoc strict_prefix_def)

lemma makedirs_Raised:
  "lookup fs p = None \<Longrightarrow> makedirs fs p = Raised e fs' \<Longrightarrow>
     fs' = fs \<and> (\<exists>q c. strict_prefix q p \<and> lookup fs q = Some (File c))"
proof (induction fs p arbitrary: e fs' rule: makedirs.induct)
  case (1 fs p)
  from "1.prems"(1) have ne: "p \<noteq> []" by auto
  show ?case
  proof (cases "p \<noteq> [] \<and> butlast p \<noteq> [] \<and> lookup fs (butlast p) = None")
    case False
    then have "makedirs fs p = mkdir fs p" by (subst makedirs.simps) auto
    with "1.prems" have r: "mkdir fs p = Raised e fs'" by simp
    from mkdir_Raised [OF r] have eq: "fs' = fs" .
    from r "1.prems"(1) False ne obtain c where "lookup fs (butlast p) = Some (File c)"
      by (auto simp: mkdir_def split: option.splits node.splits if_splits)
    with eq butlast_strict [OF ne] show ?thesis by blast
  next
    case True
    then have par: "lookup fs (butlast p) = None" by simp
    show ?thesis
    proof (cases "makedirs fs (butlast p)")
      case (Raised e1 fs1)
      with True "1.prems"(2) have "e1 = e" "fs1 = fs'" by (subst (asm) makedirs.simps; simp)+
      with "1.IH" [OF True par] Raised have "fs' = fs \<and> (\<exists>q c. strict_prefix q (butlast p) \<and> lookup fs q = Some (File c))"
        by blast
      with butlast_strict [OF ne] show ?thesis
        by (meson prefix_order.less_trans)
    next
      case (Ok fs1)
      with True "1.prems"(2) have r: "mkdir fs1 p = Raised e fs'" by (subst (asm) makedirs.simps) simp
      from makedirs_shape [of fs "butlast p"] Ok obtain ds where
        ds: "fs1 = fs @ dirs ds" "\<forall>q\<in>set ds. prefix q (butlast p) \<and> lookup fs q = None"
        by auto
      have "p \<notin> set ds"
      proof
        assume "p \<in> set ds"
        with ds(2) have "prefix p (butlast p)" by blast
        with butlast_strict [OF ne] show False by auto
      qed
      with "1.prems"(1) ds(1) have "lookup fs1 p = None"
        by (simp add: lookup_append lookup_dirs ne)
      moreover from makedirs_Ok_Dir [OF Ok] have "lookup fs1 (butlast p) = Some Dir" .
      ultimately have "mkdir fs1 p = Ok (fs1 @ [(p, Dir)])" by (simp add: mkdir_def)
      with r show ?thesis by simp
    qed
  qed
qed

lemma makedirs_blocked:
  "wf_fs Y \<Longrightarrow> strict_prefix q p \<Longrightarrow> lookup Y q = Some (File c) \<Longrightarrow> \<exists>e. makedirs Y p = Raised e Y"
proof (induction Y p rule: makedirs.induct)
  case (1 Y p)
  from "1.prems"(2) have ne: "p \<noteq> []" by auto
  have absent: "lookup Y p = None"
  proof (cases "lookup Y p")
    case (Some n)
    from wf_anc [OF "1.prems"(1) Some "1.prems"(2)] "1.prems"(3) show ?thesis by simp
  qed simp
  from "1.prems"(2) have pq: "prefix q (butlast p)" by (rule strict_prefix_butlast)
  show ?case
  proof (cases "p \<noteq> [] \<and> butlast p \<noteq> [] \<and> lookup Y (butlast p) = None")
    case True
    with pq "1.prems"(3) have "strict_prefix q (butlast p)" by (auto simp: strict_prefix_def)
    from "1.IH" [OF True "1.prems"(1) this "1.prems"(3)] obtain e where
      "makedirs Y (butlast p) = Raised e Y" by blast
    with True have "makedirs Y p = Raised e Y" by (subst makedirs.simps) simp
    then show ?thesis by blast
  next
    case False
    then have eq: "makedirs Y p = mkdir Y p" by (subst makedirs.simps) auto
    have "\<exists>c'. lookup Y (butlast p) = Some (File c')"
    proof (cases "q = butlast p")
      case True
      with "1.prems"(3) show ?thesis by blast
    next
      case neq: False
      with pq have sp: "strict_prefix q (butlast p)" by (auto simp: strict_prefix_def)
      then have "butlast p \<noteq> []" by auto
      with False ne obtain n where "lookup Y (butlast p) = Some n" by auto
      from wf_anc [OF "1.prems"(1) this sp] "1.prems"(3) show ?thesis by simp
    qed
    with absent eq show ?thesis by (auto simp: mkdir_def)
  qed
qed

lemma kinds_le_refl [simp]: "kinds_le X X"
  by (simp add: kinds_le_def)

lemma kinds_le_trans: "kinds_le X Y \<Longrightarrow> kinds_le Y Z \<Longrightarrow> kinds_le X Z"
  unfolding kinds_le_def by (metis option.inject)

lemma kinds_le_Dir: "kinds_le X Y \<Longrightarrow> lookup X p = Some Dir \<Longrightarrow> lookup Y p = Some Dir"
  unfolding kinds_le_def by blast

lemma kinds_le_File: "kinds_le X Y \<Longrightarrow> lookup X p = Some (File c) \<Longrightarrow> \<exists>c'. lookup Y p = Some (File c')"
  unfolding kinds_le_def by (metis node.exhaust node.distinct(1))

lemma kinds_le_extract_member:
  assumes "\<not> is_dir m"
  shows "kinds_le fs (state_of (extract_member fs U m))"
  unfolding kinds_le_def
proof (intro allI impI)
  fix p n
  assume "lookup fs p = Some n"
  with extract_member_lookup [OF assms, of fs U p]
  show "\<exists>n'. lookup (state_of (extract_member fs U m)) p = Some n' \<and> (n = Dir) = (n' = Dir)"
    by auto
qed

lemma kinds_le_extractall:
  "\<forall>m\<in>set ms. \<not> is_dir m \<Longrightarrow> kinds_le fs (state_of (extractall fs U ms))"
proof (induction ms arbitrary: fs)
  case Nil
  then show ?case by simp
next
  case (Cons m ms)
  then have nd: "\<not> is_dir m" and rest: "\<forall>m\<in>set ms. \<not> is_dir m" by auto
  from kinds_le_extract_member [OF nd, of fs U] Cons.IH [OF rest] show ?case
    by (cases "extract_member fs U m") (auto intro: kinds_le_trans)
qed


lemma write_file_again:
  assumes "wf_fs Y" "t \<noteq> []" "kinds_le (state_of (write_file X t b)) Y" "lookup X (butlast t) \<noteq> None"
  shows "(write_file X t b = Ok (AList.update t (File (Raw b)) X) \<and> (\<exists>c. lookup Y t = Some (File c))
            \<and> write_file Y t b = Ok (AList.update t (File (Raw b)) Y))
       \<or> ((\<exists>e. write_file X t b = Raised e X) \<and> (\<exists>e. write_file Y t b = Raised e Y))"
proof -
  from write_file_cases [of X t b] show ?thesis
  proof (elim disjE conjE exE)
    assume ok: "write_file X t b = Ok (AList.update t (File (Raw b)) X)"
    with assms(2) have "lookup (state_of (write_file X t b)) t = Some (File (Raw b))"
      by (simp add: lookup_update)
    from kinds_le_File [OF assms(3) this] obtain c where c: "lookup Y t = Some (File c)" ..
    then have "write_file Y t b = Ok (AList.update t (File (Raw b)) Y)"
      by (simp add: write_file_def)
    with ok c show ?thesis by blast
  next
    fix e assume r: "write_file X t b = Raised e X"
    then have le: "kinds_le X Y" using assms(3) by simp
    from write_file_Raised [OF r]
    consider "lookup X t = Some Dir" | "lookup X t = None" "lookup X (butlast t) \<noteq> Some Dir"
      by auto
    then have "\<exists>e. write_file Y t b = Raised e Y"
    proof cases
      case 1
      from kinds_le_Dir [OF le 1] show ?thesis by (simp add: write_file_def)
    next
      case 2
      with assms(4) obtain c where "lookup X (butlast t) = Some (File c)"
        by (cases "lookup X (butlast t)") (auto intro: node.exhaust)
      from kinds_le_File [OF le this] obtain c' where c': "lookup Y (butlast t) = Some (File c')" ..
      have "lookup Y t = None"
      proof (cases "lookup Y t")
        case (Some n)
        from wf_keys [OF assms(1) Some assms(2)] c' show ?thesis by simp
      qed simp
      with c' show ?thesis by (simp add: write_file_def)
    qed
    with r show ?thesis by blast
  qed
qed

lemma copy_member_again:
  assumes "wf_fs Y" "t \<noteq> []" "kinds_le (state_of (copy_member X t m)) Y" "lookup X (butlast t) \<noteq> None"
  shows "is_ok (copy_member Y t m) = is_ok (copy_member X t m) \<and>
     ((state_of (copy_member Y t m) = Y \<and> state_of (copy_member X t m) = X)
      \<or> (\<exists>b c. lookup Y t = Some (File c)
            \<and> lookup (state_of (copy_member X t m)) t = Some (File (Raw b))
            \<and> state_of (copy_member Y t m) = AList.update t (File (Raw b)) Y))"
proof (cases "payload m")
  case Unreadable
  then show ?thesis by (simp add: copy_member_def)
next
  case (Data b)
  with assms(3) have "kinds_le (state_of (write_file X t b)) Y" by (simp add: copy_member_def)
  from write_file_again [OF assms(1,2) this assms(4)] Data assms(2) show ?thesis
    by (auto simp: copy_member_def lookup_update)
next
  case (Damaged b)
  with assms(3) have "kinds_le (state_of (write_file X t b)) Y"
    by (cases "write_file X t b") (simp_all add: copy_member_def)
  from write_file_again [OF assms(1,2) this assms(4)] Damaged assms(2) show ?thesis
    by (auto simp: copy_member_def lookup_update)
qed

lemma copy_member_other:
  "p \<noteq> t \<Longrightarrow> lookup (state_of (copy_member fs t m)) p = lookup fs p"
proof (cases "payload m")
  case (Data b)
  assume "p \<noteq> t"
  with Data write_file_cases [of fs t b] show ?thesis by (auto simp: copy_member_def lookup_update)
next
  case (Damaged b)
  assume "p \<noteq> t"
  with Damaged write_file_cases [of fs t b] show ?thesis by (auto simp: copy_member_def lookup_update)
qed (simp add: copy_member_def)

lemma ensure_upperdirs_Ok:
  assumes "ensure_upperdirs X up = Ok X1"
  shows "(\<forall>p n. lookup X p = Some n \<longrightarrow> lookup X1 p = Some n) \<and> lookup X1 up \<noteq> None"
proof (cases "up \<noteq> [] \<and> lookup X up = None")
  case False
  with assms show ?thesis by (auto simp: ensure_upperdirs_def)
next
  case True
  with assms have mk: "makedirs X up = Ok X1" by (simp add: ensure_upperdirs_def)
  from makedirs_shape [of X up] mk obtain ds where "X1 = X @ dirs ds" by auto
  with makedirs_Ok_Dir [OF mk] show ?thesis by (simp add: lookup_append)
qed

lemma extract_member_again:
  assumes "\<not> is_dir m" "wf_fs Y" "U @ arcname m \<noteq> []"
    and le: "kinds_le (state_of (extract_member X U m)) Y"
  shows "is_ok (extract_member Y U m) = is_ok (extract_member X U m) \<and>
      ((state_of (extract_member Y U m) = Y
          \<and> (\<forall>p n. lookup X p = Some n \<longrightarrow> lookup (state_of (extract_member X U m)) p = Some n))
       \<or> (\<exists>b c. lookup Y (U @ arcname m) = Some (File c)
             \<and> lookup (state_of (extract_member X U m)) (U @ arcname m) = Some (File (Raw b))
             \<and> state_of (extract_member Y U m) = AList.update (U @ arcname m) (File (Raw b)) Y))"
proof -
  define t where "t = U @ arcname m"
  define up where "up = butlast t"
  have ne: "t \<noteq> []" using assms(3) by (simp add: t_def)
  have em: "extract_member fs U m =
      (case ensure_upperdirs fs up of Raised e fs1 \<Rightarrow> Raised e fs1 | Ok fs1 \<Rightarrow> copy_member fs1 t m)" for fs
    unfolding extract_member_def Let_def t_def up_def
    using assms(1) by (auto split: result.splits)
  have upt: "up \<noteq> t" using butlast_strict [OF ne] by (auto simp: up_def)
  have ?thesis unfolding t_def [symmetric]
  proof (cases "ensure_upperdirs X up")
    case (Raised e X1)
    then have c: "up \<noteq> []" "lookup X up = None" and mk: "makedirs X up = Raised e X1"
      by (auto simp: ensure_upperdirs_def split: if_splits)
    from makedirs_Raised [OF c(2) mk] obtain q c' where
      x1: "X1 = X" and q: "strict_prefix q up" "lookup X q = Some (File c')" by blast
    from Raised x1 have x': "extract_member X U m = Raised e X" by (simp add: em)
    with le have "kinds_le X Y" by simp
    from kinds_le_File [OF this q(2)] obtain c'' where qy: "lookup Y q = Some (File c'')" ..
    have "lookup Y up = None"
    proof (cases "lookup Y up")
      case (Some n)
      from wf_anc [OF assms(2) Some q(1)] qy show ?thesis by simp
    qed simp
    moreover from makedirs_blocked [OF assms(2) q(1) qy] obtain e' where "makedirs Y up = Raised e' Y" ..
    ultimately have "extract_member Y U m = Raised e' Y"
      using c(1) by (simp add: em ensure_upperdirs_def)
    with x' show "is_ok (extract_member Y U m) = is_ok (extract_member X U m) \<and>
      ((state_of (extract_member Y U m) = Y
          \<and> (\<forall>p n. lookup X p = Some n \<longrightarrow> lookup (state_of (extract_member X U m)) p = Some n))
       \<or> (\<exists>b c. lookup Y t = Some (File c)
             \<and> lookup (state_of (extract_member X U m)) t = Some (File (Raw b))
             \<and> state_of (extract_member Y U m) = AList.update t (File (Raw b)) Y))"
      by simp
  next
    case (Ok X1)
    from ensure_upperdirs_Ok [OF Ok] have
      keep: "\<forall>p n. lookup X p = Some n \<longrightarrow> lookup X1 p = Some n" and par: "lookup X1 up \<noteq> None"
      by auto
    from Ok have x': "extract_member X U m = copy_member X1 t m" by (simp add: em)
    with le have le1: "kinds_le (state_of (copy_member X1 t m)) Y" by simp
    from par obtain n where "lookup X1 up = Some n" by auto
    with copy_member_other [OF upt, of X1 m] have "lookup (state_of (copy_member X1 t m)) up = Some n"
      by simp
    with le1 have "lookup Y up \<noteq> None" by (auto simp: kinds_le_def)
    then have "ensure_upperdirs Y up = Ok Y" by (auto simp: ensure_upperdirs_def)
    then have y': "extract_member Y U m = copy_member Y t m" by (simp add: em)
    from copy_member_again [OF assms(2) ne le1] par keep
    show "is_ok (extract_member Y U m) = is_ok (extract_member X U m) \<and>
      ((state_of (extract_member Y U m) = Y
          \<and> (\<forall>p n. lookup X p = Some n \<longrightarrow> lookup (state_of (extract_member X U m)) p = Some n))
       \<or> (\<exists>b c. lookup Y t = Some (File c)
             \<and> lookup (state_of (extract_member X U m)) t = Some (File (Raw b))
             \<and> state_of (extract_member Y U m) = AList.update t (File (Raw b)) Y))"
      unfolding x' y' up_def by auto
  qed
  then show ?thesis unfolding t_def .
qed


lemma kinds_le_None: "kinds_le F Y \<Longrightarrow> lookup Y p = None \<Longrightarrow> lookup F p = None"
  unfolding kinds_le_def by (cases "lookup F p") fastforce+

lemma again_member:
  assumes nd: "\<not> is_dir m" and ne: "U @ arcname m \<noteq> []"
    and ag: "again F X Y"
    and le: "kinds_le (state_of (extract_member X U m)) F"
  shows "again F (state_of (extract_member X U m)) (state_of (extract_member Y U m))
     \<and> is_ok (extract_member Y U m) = is_ok (extract_member X U m)"
proof -
  define t where "t = U @ arcname m"
  define X' where "X' = state_of (extract_member X U m)"
  define Y' where "Y' = state_of (extract_member Y U m)"
  from ag have wf: "wf_fs Y" and keys: "map fst Y = map fst F"
    and kYF: "kinds_le Y F" and kFY: "kinds_le F Y"
    and content: "\<And>p. lookup Y p = lookup X p \<or> lookup Y p = lookup F p"
    by (auto simp: again_def)
  from le kFY have leY: "kinds_le (state_of (extract_member X U m)) Y"
    by (rule kinds_le_trans)
  note sim = extract_member_again [OF nd wf ne leY]
  then have ok: "is_ok (extract_member Y U m) = is_ok (extract_member X U m)" by simp
  from sim consider
      (same) "Y' = Y" "\<And>p n. lookup X p = Some n \<Longrightarrow> lookup X' p = Some n"
    | (wrote) b c where "lookup Y t = Some (File c)" "lookup X' t = Some (File (Raw b))"
        "Y' = AList.update t (File (Raw b)) Y"
    unfolding X'_def Y'_def t_def by blast
  then have "again F X' Y'"
  proof cases
    case same
    have "lookup Y p = lookup X' p \<or> lookup Y p = lookup F p" for p
    proof (cases "lookup X p")
      case None
      with content [of p] kinds_le_None [OF kFY, of p] show ?thesis by auto
    next
      case (Some n)
      with content [of p] same(2) [OF Some] show ?thesis by auto
    qed
    with wf keys kYF kFY same(1) show ?thesis by (simp add: again_def)
  next
    case wrote
    from wrote(1) have tne: "t \<noteq> []" by auto
    from wrote(1) tne have tk: "t \<in> set (map fst Y)" by (rule lookup_keys)
    have wf': "wf_fs Y'"
      unfolding wrote(3) using wf tne wrote(1) by (intro wf_update_file) auto
    have keys': "map fst Y' = map fst F"
      unfolding wrote(3) using tk keys by (simp add: update_keys)
    from kinds_le_File [OF kYF wrote(1)] obtain c' where ft: "lookup F t = Some (File c')" ..
    have k1: "kinds_le Y' F"
      unfolding kinds_le_def wrote(3)
      using kYF ft tne by (auto simp: lookup_update kinds_le_def split: if_splits)
    have k2: "kinds_le F Y'"
      unfolding kinds_le_def wrote(3)
      using kFY ft tne by (auto simp: lookup_update kinds_le_def)
    have "lookup Y' p = lookup X' p \<or> lookup Y' p = lookup F p" for p
    proof (cases "p = t")
      case True
      with wrote(2,3) tne show ?thesis by (simp add: lookup_update)
    next
      case False
      then have y: "lookup Y' p = lookup Y p"
        by (auto simp: wrote(3) lookup_update)
      show ?thesis
      proof (cases "lookup X p")
        case None
        with content [of p] kinds_le_None [OF kFY, of p] y show ?thesis by auto
      next
        case (Some n)
        with extract_member_lookup [OF nd, of X U p] False have "lookup X' p = Some n"
          by (auto simp: X'_def t_def)
        with content [of p] Some y show ?thesis by auto
      qed
    qed
    with wf' keys' k1 k2 show ?thesis by (simp add: again_def)
  qed
  with ok show ?thesis by (simp add: X'_def Y'_def)
qed

lemma again_extractall:
  assumes "\<forall>m\<in>set ms. \<not> is_dir m \<and> U @ arcname m \<noteq> []"
    and "again F X Y"
    and "kinds_le (state_of (extractall X U ms)) F"
  shows "again F (state_of (extractall X U ms)) (state_of (extractall Y U ms))
     \<and> is_ok (extractall Y U ms) = is_ok (extractall X U ms)"
  using assms
proof (induction ms arbitrary: X Y)
  case Nil
  then show ?case by simp
next
  case (Cons m ms)
  then have nd: "\<not> is_dir m" "U @ arcname m \<noteq> []"
    and rest: "\<forall>m\<in>set ms. \<not> is_dir m \<and> U @ arcname m \<noteq> []" by auto
  from rest have rest': "\<forall>m\<in>set ms. \<not> is_dir m" by blast
  define X1 where "X1 = state_of (extract_member X U m)"
  have "kinds_le X1 (state_of (extractall X U (m # ms)))"
    using kinds_le_extractall [OF rest', of X1 U]
    by (cases "extract_member X U m") (auto simp: X1_def)
  with Cons.prems(3) have le1: "kinds_le (state_of (extract_member X U m)) F"
    unfolding X1_def by (blast intro: kinds_le_trans)
  from again_member [OF nd Cons.prems(2) le1] have
    ag1: "again F (state_of (extract_member X U m)) (state_of (extract_member Y U m))"
    and ok1: "is_ok (extract_member Y U m) = is_ok (extract_member X U m)"
    by auto
  show ?case
  proof (cases "extract_member X U m")
    case (Raised e X1')
    with ok1 obtain e' Y1 where "extract_member Y U m = Raised e' Y1"
      by (cases "extract_member Y U m") auto
    with Raised ag1 show ?thesis by simp
  next
    case (Ok X1')
    with ok1 obtain Y1 where y: "extract_member Y U m = Ok Y1"
      by (cases "extract_member Y U m") auto
    from Ok y ag1 have "again F X1' Y1" by simp
    moreover from Cons.prems(3) Ok have "kinds_le (state_of (extractall X1' U ms)) F" by simp
    ultimately show ?thesis
      using Cons.IH [OF rest] Ok y by simp
  qed
qed

lemma selected_filter:
  "(\<lambda>x. last (split_on CHR ''/'' (filename x)) \<in> set to_extract) = selected"
  by (auto simp: selected_def)

lemma again_zip_file:
  assumes "again F X Y" "lookup X z = lookup F z"
    and "kinds_le (state_of (extract_zip_file cfg X z to_extract)) F"
  shows "again F (state_of (extract_zip_file cfg X z to_extract))
           (state_of (extract_zip_file cfg Y z to_extract))
     \<and> is_ok (extract_zip_file cfg Y z to_extract) = is_ok (extract_zip_file cfg X z to_extract)"
proof -
  from assms(1) have "lookup Y z = lookup X z \<or> lookup Y z = lookup F z" by (simp add: again_def)
  with assms(2) have same: "lookup Y z = lookup X z" by auto
  then have zf: "ZipFile Y z = ZipFile X z" by (simp add: ZipFile_def)
  show ?thesis
  proof (cases "ZipFile X z")
    case (Inl e)
    with zf assms(1) show ?thesis by (simp add: extract_zip_file_def)
  next
    case (Inr es)
    have sel: "\<forall>m\<in>set (filter selected es). \<not> is_dir m \<and> unpacked_path cfg @ arcname m \<noteq> []"
      by (simp add: selected_not_dir unpacked_path_def)
    from assms(3) Inr have "kinds_le (state_of (extractall X (unpacked_path cfg) (filter selected es))) F"
      by (simp add: extract_zip_file_def selected_filter)
    from again_extractall [OF sel assms(1) this] Inr zf show ?thesis
      by (simp add: extract_zip_file_def selected_filter)
  qed
qed

lemma kinds_le_extract_zip_file: "kinds_le fs (state_of (extract_zip_file cfg fs z to_extract))"
  by (auto simp: extract_zip_file_def selected_filter selected_not_dir
      intro!: kinds_le_extractall split: sum.splits)

lemma extract_loop_Cons:
  "\<exists>w'. extract_loop cfg (z # zs) w = extract_loop cfg zs w'
     \<and> disk w' = state_of (extract_zip_file cfg (disk w) z to_extract)"
  by (cases "extract_zip_file cfg (disk w) z to_extract") auto

lemma kinds_le_extract_loop: "kinds_le (disk w) (disk (extract_loop cfg zs w))"
proof (induction zs arbitrary: w)
  case Nil
  then show ?case by simp
next
  case (Cons z zs)
  from extract_loop_Cons [of cfg z zs w] obtain w' where
    w': "extract_loop cfg (z # zs) w = extract_loop cfg zs w'"
      "disk w' = state_of (extract_zip_file cfg (disk w) z to_extract)"
    by blast
  from kinds_le_extract_zip_file [of "disk w" cfg z] Cons.IH [of w'] w' show ?case
    by (auto intro: kinds_le_trans)
qed

lemma not_prefix_below:
  "\<not> prefix q U \<Longrightarrow> \<not> prefix U q \<Longrightarrow> \<not> prefix q (U @ a)"
  by (auto simp: prefix_append)

lemma extract_zip_file_untouched:
  assumes "\<not> prefix q (unpacked_path cfg)" "\<not> prefix (unpacked_path cfg) q"
  shows "lookup (state_of (extract_zip_file cfg fs z to_extract)) q = lookup fs q"
proof (cases "ZipFile fs z")
  case (Inl e)
  then show ?thesis by (simp add: extract_zip_file_def)
next
  case (Inr es)
  have nd: "\<forall>m\<in>set (filter selected es). \<not> is_dir m" by (simp add: selected_not_dir)
  have np: "\<not> prefix q (unpacked_path cfg @ a)" for a
    using assms by (rule not_prefix_below)
  from extractall_lookup [OF nd, of fs "unpacked_path cfg" q] np Inr show ?thesis
    by (auto simp: extract_zip_file_def selected_filter strict_prefix_def)
qed

lemma extract_loop_untouched:
  assumes "\<not> prefix q (unpacked_path cfg)" "\<not> prefix (unpacked_path cfg) q"
  shows "lookup (disk (extract_loop cfg zs w)) q = lookup (disk w) q"
proof (induction zs arbitrary: w)
  case Nil
  then show ?case by simp
next
  case (Cons z zs)
  from extract_loop_Cons [of cfg z zs w] obtain w' where
    w': "extract_loop cfg (z # zs) w = extract_loop cfg zs w'"
      "disk w' = state_of (extract_zip_file cfg (disk w) z to_extract)"
    by blast
  with Cons.IH [of w'] extract_zip_file_untouched [OF assms, of fs z] show ?case
    by (simp add: extract_zip_file_untouched [OF assms])
qed

lemma again_loop:
  assumes "again F (disk w) (disk v)"
    and "\<forall>z\<in>set zs. lookup (disk w) z = lookup F z
            \<and> \<not> prefix z (unpacked_path cfg) \<and> \<not> prefix (unpacked_path cfg) z"
    and "kinds_le (disk (extract_loop cfg zs w)) F"
  shows "again F (disk (extract_loop cfg zs w)) (disk (extract_loop cfg zs v))"
  using assms
proof (induction zs arbitrary: w v)
  case Nil
  then show ?case by simp
next
  case (Cons z zs)
  from extract_loop_Cons [of cfg z zs w] obtain w' where
    w': "extract_loop cfg (z # zs) w = extract_loop cfg zs w'"
      "disk w' = state_of (extract_zip_file cfg (disk w) z to_extract)"
    by blast
  from extract_loop_Cons [of cfg z zs v] obtain v' where
    v': "extract_loop cfg (z # zs) v = extract_loop cfg zs v'"
      "disk v' = state_of (extract_zip_file cfg (disk v) z to_extract)"
    by blast
  from Cons.prems(3) w'(1) have fin: "kinds_le (disk (extract_loop cfg zs w')) F" by simp
  from kinds_le_extract_loop [of w' cfg zs] fin
  have le1: "kinds_le (state_of (extract_zip_file cfg (disk w) z to_extract)) F"
    unfolding w'(2) [symmetric] by (rule kinds_le_trans)
  from Cons.prems(2) have z: "lookup (disk w) z = lookup F z" by simp
  from again_zip_file [OF Cons.prems(1) z le1] w'(2) v'(2)
  have ag: "again F (disk w') (disk v')" by simp
  have "\<forall>z\<in>set zs. lookup (disk w') z = lookup F z
            \<and> \<not> prefix z (unpacked_path cfg) \<and> \<not> prefix (unpacked_path cfg) z"
    using Cons.prems(2) w'(2) by (simp add: extract_zip_file_untouched)
  from Cons.IH [OF ag this fin] w'(1) v'(1) show ?case by simp
qed

lemma alist_ext:
  assumes "distinct (map fst xs)" "map fst xs = map fst ys" "\<And>k. map_of xs k = map_of ys k"
  shows "xs = ys"
  using assms
proof (induction xs arbitrary: ys)
  case Nil
  then show ?case by simp
next
  case (Cons x xs)
  from Cons.prems(2) obtain y ys' where ys: "ys = y # ys'" by (cases ys) auto
  with Cons.prems(2) have k: "fst y = fst x" and ks: "map fst xs = map fst ys'" by auto
  from Cons.prems(3) [of "fst x"] ys k have v: "snd y = snd x"
    by (cases x; cases y) auto
  have "map_of xs k' = map_of ys' k'" for k'
  proof (cases "k' = fst x")
    case True
    with Cons.prems(1) have "k' \<notin> fst ` set xs" by auto
    moreover from this ks have "k' \<notin> fst ` set ys'" by (metis set_map)
    ultimately show ?thesis by (metis map_of_eq_None_iff)
  next
    case False
    with Cons.prems(3) [of k'] ys k show ?thesis by (cases x; cases y) auto
  qed
  with Cons.IH [of ys'] Cons.prems(1) ks have "xs = ys'" by auto
  with ys k v show ?case by (cases x; cases y) auto
qed

lemma wf_fs_ext:
  assumes "wf_fs X" "wf_fs Y" "map fst X = map fst Y" "\<And>p. lookup X p = lookup Y p"
  shows "X = Y"
proof (rule alist_ext)
  show "distinct (map fst X)" using assms(1) by (simp add: wf_fs_def)
  show "map fst X = map fst Y" by fact
  fix k
  show "map_of X k = map_of Y k"
  proof (cases "k = []")
    case True
    from assms(1) have "[] \<notin> fst ` set X" by (auto simp: wf_fs_def list_all_iff)
    moreover from assms(2) have "[] \<notin> fst ` set Y" by (auto simp: wf_fs_def list_all_iff)
    ultimately show ?thesis using True by (metis map_of_eq_None_iff)
  next
    case False
    with assms(4) [of k] show ?thesis by (simp add: lookup_def)
  qed
qed


lemma extract_member_keys:
  assumes "\<not> is_dir m"
  shows "\<exists>ks. map fst (state_of (extract_member fs U m)) = map fst fs @ ks
     \<and> (\<forall>k\<in>set ks. prefix k (U @ arcname m) \<and> lookup fs k = None)"
proof -
  from extract_member_shape [OF assms, of U fs] obtain ds where
    ds: "\<forall>q\<in>set ds. strict_prefix q (U @ arcname m) \<and> lookup fs q = None"
    and st: "state_of (extract_member fs U m) = fs @ dirs ds \<or>
      (\<exists>b. (payload m = Data b \<or> payload m = Damaged b) \<and> lookup (fs @ dirs ds) (U @ arcname m) \<noteq> Some Dir
          \<and> U @ arcname m \<noteq> []
          \<and> state_of (extract_member fs U m) = AList.update (U @ arcname m) (File (Raw b)) (fs @ dirs ds))"
    by blast
  have kd: "map fst (fs @ dirs ds) = map fst fs @ ds"
    by (simp add: dirs_def comp_def)
  from st show ?thesis
  proof
    assume "state_of (extract_member fs U m) = fs @ dirs ds"
    with kd ds show ?thesis by (intro exI [of _ ds]) (auto simp: strict_prefix_def)
  next
    assume "\<exists>b. (payload m = Data b \<or> payload m = Damaged b) \<and> lookup (fs @ dirs ds) (U @ arcname m) \<noteq> Some Dir
          \<and> U @ arcname m \<noteq> []
          \<and> state_of (extract_member fs U m) = AList.update (U @ arcname m) (File (Raw b)) (fs @ dirs ds)"
    then obtain b where ne: "U @ arcname m \<noteq> []"
      and eq: "state_of (extract_member fs U m) = AList.update (U @ arcname m) (File (Raw b)) (fs @ dirs ds)"
      by blast
    show ?thesis
    proof (cases "U @ arcname m \<in> set (map fst (fs @ dirs ds))")
      case True
      with eq kd ds show ?thesis
        by (intro exI [of _ ds]) (auto simp: update_keys strict_prefix_def simp del: map_append)
    next
      case False
      then have "lookup (fs @ dirs ds) (U @ arcname m) = None"
        using ne by (simp add: lookup_def map_of_eq_None_iff del: map_of_append map_append)
      then have "lookup fs (U @ arcname m) = None"
        by (auto simp: lookup_append split: option.splits)
      with False eq kd ds show ?thesis
        by (intro exI [of _ "ds @ [U @ arcname m]"])
          (auto simp: update_keys strict_prefix_def simp del: map_append)
    qed
  qed
qed

lemma glob_step:
  assumes "map fst fs' = map fst fs @ ks" "\<forall>k\<in>set ks. k = [] \<or> butlast k \<noteq> d"
    "lookup fs' d = lookup fs d"
  shows "glob fs' d suf = glob fs d suf"
proof -
  from assms(2) have "filter (\<lambda>p. p \<noteq> [] \<and> butlast p = d \<and> fnmatch_suffix (last p) suf) ks = []"
    by (auto simp: filter_empty_conv)
  with assms(1,3) show ?thesis by (simp add: glob_def)
qed

lemma glob_extract_member:
  assumes "\<not> is_dir m" "lookup fs d \<noteq> None" "lookup fs (d @ [x]) \<noteq> None"
  shows "glob (state_of (extract_member fs (d @ [x]) m)) d suf = glob fs d suf"
proof -
  from extract_member_keys [OF assms(1), of fs "d @ [x]"] obtain ks where
    ks: "map fst (state_of (extract_member fs (d @ [x]) m)) = map fst fs @ ks"
      "\<forall>k\<in>set ks. prefix k ((d @ [x]) @ arcname m) \<and> lookup fs k = None"
    by blast
  have "k = [] \<or> butlast k \<noteq> d" if "k \<in> set ks" for k
  proof (rule ccontr)
    assume "\<not> (k = [] \<or> butlast k \<noteq> d)"
    then obtain y where k: "k = d @ [y]" by (metis append_butlast_last_id)
    from ks(2) that have p: "prefix k ((d @ [x]) @ arcname m)" and n: "lookup fs k = None" by auto
    from p k have "y = x" by auto
    with k n assms(3) show False by simp
  qed
  moreover have "lookup (state_of (extract_member fs (d @ [x]) m)) d = lookup fs d"
    using extract_member_lookup [OF assms(1), of fs "d @ [x]" d] assms(2) by auto
  ultimately show ?thesis using ks(1) by (intro glob_step) auto
qed

lemma kinds_le_exists: "kinds_le X Y \<Longrightarrow> lookup X p \<noteq> None \<Longrightarrow> lookup Y p \<noteq> None"
  unfolding kinds_le_def by fastforce

lemma glob_extractall:
  assumes "\<forall>m\<in>set ms. \<not> is_dir m" "lookup fs d \<noteq> None" "lookup fs (d @ [x]) \<noteq> None"
  shows "glob (state_of (extractall fs (d @ [x]) ms)) d suf = glob fs d suf"
  using assms
proof (induction ms arbitrary: fs)
  case Nil
  then show ?case by simp
next
  case (Cons m ms)
  then have nd: "\<not> is_dir m" and rest: "\<forall>m\<in>set ms. \<not> is_dir m" by auto
  note one = glob_extract_member [OF nd Cons.prems(2,3), of suf]
  note le = kinds_le_extract_member [OF nd, of fs "d @ [x]"]
  show ?case
  proof (cases "extract_member fs (d @ [x]) m")
    case (Raised e fs1)
    with one show ?thesis by simp
  next
    case (Ok fs1)
    with le Cons.prems(2,3) have "lookup fs1 d \<noteq> None" "lookup fs1 (d @ [x]) \<noteq> None"
      by (auto dest: kinds_le_exists)
    from Cons.IH [OF rest this] one Ok show ?thesis by simp
  qed
qed

lemma glob_extract_zip_file:
  assumes "lookup fs (download_path cfg) \<noteq> None" "lookup fs (unpacked_path cfg) \<noteq> None"
  shows "glob (state_of (extract_zip_file cfg fs z to_extract)) (download_path cfg) suf
     = glob fs (download_path cfg) suf"
  using assms
  by (auto simp: extract_zip_file_def selected_filter selected_not_dir unpacked_path_def
      intro!: glob_extractall split: sum.splits)

lemma glob_extract_loop:
  assumes "lookup (disk w) (download_path cfg) \<noteq> None" "lookup (disk w) (unpacked_path cfg) \<noteq> None"
  shows "glob (disk (extract_loop cfg zs w)) (download_path cfg) suf
     = glob (disk w) (download_path cfg) suf"
  using assms
proof (induction zs arbitrary: w)
  case Nil
  then show ?case by simp
next
  case (Cons z zs)
  from extract_loop_Cons [of cfg z zs w] obtain w' where
    w': "extract_loop cfg (z # zs) w = extract_loop cfg zs w'"
      "disk w' = state_of (extract_zip_file cfg (disk w) z to_extract)"
    by blast
  from kinds_le_extract_zip_file [of "disk w" cfg z] Cons.prems w'(2)
  have "lookup (disk w') (download_path cfg) \<noteq> None" "lookup (disk w') (unpacked_path cfg) \<noteq> None"
    by (auto dest: kinds_le_exists)
  from Cons.IH [OF this] glob_extract_zip_file [OF Cons.prems, of z suf] w' show ?case
    by simp
qed

lemma path_mkdir_exist_ok_Ok:
  assumes "wf_fs fs" "path_mkdir_exist_ok fs (d @ [x]) = Ok S"
  shows "wf_fs S \<and> lookup S (d @ [x]) = Some Dir \<and> lookup S d = Some Dir"
proof (cases "lookup fs (d @ [x]) = Some Dir")
  case True
  with assms have "S = fs" by (simp add: path_mkdir_exist_ok_def)
  with True assms(1) wf_keys [OF assms(1) True] show ?thesis by simp
next
  case False
  with assms(2) have mk: "mkdir fs (d @ [x]) = Ok S" by (simp add: path_mkdir_exist_ok_def)
  from wf_mkdir [OF assms(1), of "d @ [x]"] mk have "wf_fs S" by simp
  with mkdir_Ok [OF mk] show ?thesis
    by (auto simp: lookup_append lookup_dirs)
qed

lemma zip_name_not_unpacked:
  "fnmatch_suffix n ''.zip'' \<Longrightarrow> \<not> prefix (d @ [n]) (d @ [''unpacked'']) \<and> \<not> prefix (d @ [''unpacked'']) (d @ [n])"
  by (auto simp: fnmatch_suffix_def)

text \<open>
  C7. On a well-formed disk, when \<^verbatim>\<open>extract_zip_files\<close> has returned, a second
  call returns too and leaves the disk exactly as the first call left it: the same
  entries in the same order with the same bytes. (The log receives the warnings of
  the second call.)
\<close>

theorem extraction_idempotent:
  assumes "wf_fs (disk w)" "extract_zip_files cfg w = Ok w1"
  shows "\<exists>w2. extract_zip_files cfg w1 = Ok w2 \<and> disk w2 = disk w1"
proof -
  define d where "d = download_path cfg"
  have U: "unpacked_path cfg = d @ [''unpacked'']" by (simp add: unpacked_path_def d_def)
  from assms(2) obtain S where
    mk: "path_mkdir_exist_ok (disk w) (unpacked_path cfg) = Ok S"
    and w1: "w1 = extract_loop cfg (glob S d ''.zip'') (w\<lparr>disk := S\<rparr>)"
    by (auto simp: extract_zip_files_def d_def split: result.splits)
  define zs where "zs = glob S d ''.zip''"
  define F where "F = disk w1"
  from path_mkdir_exist_ok_Ok [OF assms(1) mk [unfolded U]] have
    wfS: "wf_fs S" and SU: "lookup S (unpacked_path cfg) = Some Dir" and Sd: "lookup S d = Some Dir"
    by (simp_all add: U)
  have le: "kinds_le S F"
    using kinds_le_extract_loop [of "w\<lparr>disk := S\<rparr>" cfg zs] by (simp add: F_def w1 zs_def)
  have wfF: "wf_fs F"
    using wf_extract_loop [of "w\<lparr>disk := S\<rparr>" cfg zs] wfS by (simp add: F_def w1 zs_def)
  from kinds_le_Dir [OF le SU] have FU: "lookup F (unpacked_path cfg) = Some Dir" .
  then have mk2: "path_mkdir_exist_ok (disk w1) (unpacked_path cfg) = Ok F"
    by (simp add: path_mkdir_exist_ok_def F_def)
  have g: "glob F d ''.zip'' = zs"
    using glob_extract_loop [of "w\<lparr>disk := S\<rparr>" cfg zs "''.zip''"] SU Sd
    by (simp add: F_def w1 zs_def d_def)
  have run2: "extract_zip_files cfg w1 = Ok (extract_loop cfg zs w1)"
    using mk2 g by (simp add: extract_zip_files_def d_def [symmetric] F_def)
  have ag0: "again F (disk (w\<lparr>disk := S\<rparr>)) (disk w1)"
    using wfF by (simp add: again_def F_def)
  have arch: "\<forall>z\<in>set zs. lookup (disk (w\<lparr>disk := S\<rparr>)) z = lookup F z
            \<and> \<not> prefix z (unpacked_path cfg) \<and> \<not> prefix (unpacked_path cfg) z"
  proof
    fix z assume "z \<in> set zs"
    then obtain n where z: "z = d @ [n]" "fnmatch_suffix n ''.zip''"
      unfolding zs_def glob_member by (metis append_butlast_last_id)
    from zip_name_not_unpacked [OF z(2), of d] z(1) U
    have np: "\<not> prefix z (unpacked_path cfg)" "\<not> prefix (unpacked_path cfg) z" by simp_all
    from extract_loop_untouched [OF np, of zs "w\<lparr>disk := S\<rparr>"]
    have "lookup F z = lookup S z" by (simp add: F_def w1 zs_def)
    with np show "lookup (disk (w\<lparr>disk := S\<rparr>)) z = lookup F z
            \<and> \<not> prefix z (unpacked_path cfg) \<and> \<not> prefix (unpacked_path cfg) z"
      by simp
  qed
  have fin: "kinds_le (disk (extract_loop cfg zs (w\<lparr>disk := S\<rparr>))) F"
    by (simp add: F_def w1 zs_def)
  from again_loop [OF ag0 arch fin]
  have ag: "again F F (disk (extract_loop cfg zs w1))"
    by (simp add: F_def w1 zs_def)
  then have "disk (extract_loop cfg zs w1) = F"
    using wfF by (intro wf_fs_ext) (auto simp: again_def)
  with run2 show ?thesis by (simp add: F_def)
qed

theorem extraction_idempotent_witness:
  "wf_fs (disk ex_world)
   \<and> extract_zip_files ex_cfg ex_world = Ok (state_of (extract_zip_files ex_cfg ex_world))
   \<and> (\<exists>w2. extract_zip_files ex_cfg (state_of (extract_zip_files ex_cfg ex_world)) = Ok w2
         \<and> disk w2 = disk (state_of (extract_zip_files ex_cfg ex_world)))
   \<and> lookup (disk (state_of (extract_zip_files ex_cfg ex_world)))
        [''d'', ''unpacked'', ''101'', ''PARCELY_KN_P.shp''] = Some (File (Raw ''p101''))"
proof -
  have wf: "wf_fs (disk ex_world)"
    by (simp add: wf_fs_def ex_defs lookup_def)
  have "is_ok (extract_zip_files ex_cfg ex_world)"
    by (simp add: ex_defs zip_defs fs_defs makedirs.simps)
  then have run: "extract_zip_files ex_cfg ex_world = Ok (state_of (extract_zip_files ex_cfg ex_world))"
    by (rule is_ok_eq)
  have f: "lookup (disk (state_of (extract_zip_files ex_cfg ex_world)))
        [''d'', ''unpacked'', ''101'', ''PARCELY_KN_P.shp''] = Some (File (Raw ''p101''))"
    by (simp add: ex_defs zip_defs fs_defs makedirs.simps)
  from extraction_idempotent [OF wf run] wf run f show ?thesis
    by blast
qed

section \<open>Failures of single items\<close>


































end
